theory Spec2Isabelle
  imports Main
begin

section \<open>Python values used by pgn2pdf\<close>

text \<open>
  The program is Python 2: a \<^verbatim>\<open>str\<close> is a byte string, modelled as \<^typ>\<open>string\<close>.
  Exceptions are values; the string is the exception's message.
\<close>

datatype error =
    ValueError string
  | IndexError string
  | AttributeError string
  | TypeError string
  | KeyError string

definition backslash :: char where
  "backslash = CHR 0x5C"

definition dquote :: char where
  "dquote = CHR 0x22"

definition newline :: char where
  "newline = CHR 0x0A"

definition squote :: char where
  "squote = CHR 0x27"

text \<open>\<^verbatim>\<open>c.isspace()\<close>: space, tab, line feed, vertical tab, form feed, carriage return.\<close>

definition isspace :: "char \<Rightarrow> bool" where
  "isspace c = (c \<in> set [CHR '' '', CHR 0x09, CHR 0x0A, CHR 0x0B, CHR 0x0C, CHR 0x0D])"

text \<open>\<^verbatim>\<open>c.islower()\<close> and \<^verbatim>\<open>c.lower()\<close> on one byte (the C locale: ASCII letters only).\<close>

definition islower :: "char \<Rightarrow> bool" where
  "islower c = (c \<in> set ''abcdefghijklmnopqrstuvwxyz'')"

definition lower_char :: "char \<Rightarrow> char" where
  "lower_char c =
     (case map_of (zip ''ABCDEFGHIJKLMNOPQRSTUVWXYZ'' ''abcdefghijklmnopqrstuvwxyz'') c of
        None \<Rightarrow> c
      | Some l \<Rightarrow> l)"

definition lower :: "string \<Rightarrow> string" where
  "lower s = map lower_char s"

definition lstrip :: "string \<Rightarrow> string" where
  "lstrip s = dropWhile isspace s"

definition rstrip :: "string \<Rightarrow> string" where
  "rstrip s = rev (dropWhile isspace (rev s))"

definition strip :: "string \<Rightarrow> string" where
  "strip s = rstrip (lstrip s)"

definition startswith :: "string \<Rightarrow> string \<Rightarrow> bool" where
  "startswith s p = (take (length p) s = p)"

text \<open>\<^verbatim>\<open>sep.join(xs)\<close>.\<close>

fun join :: "string \<Rightarrow> string list \<Rightarrow> string" where
  "join sep [] = []"
| "join sep [x] = x"
| "join sep (x # y # ys) = x @ sep @ join sep (y # ys)"

text \<open>\<^verbatim>\<open>s.split(c)\<close> for a separator of one character: never an empty list.\<close>

fun split :: "char \<Rightarrow> string \<Rightarrow> string list" where
  "split c [] = [[]]"
| "split c (x # xs) =
     (if x = c then [] # split c xs
      else (case split c xs of [] \<Rightarrow> [[x]] | w # ws \<Rightarrow> (x # w) # ws))"

text \<open>
  \<^verbatim>\<open>s.split(None, 1)\<close>: the first whitespace-delimited word and, when something other
  than whitespace follows it, the rest of the string from there on.
\<close>

definition split_None_1 :: "string \<Rightarrow> string list" where
  "split_None_1 s =
     (let s1 = dropWhile isspace s in
      if s1 = [] then []
      else
        let w = takeWhile (\<lambda>c. \<not> isspace c) s1;
            r = dropWhile isspace (dropWhile (\<lambda>c. \<not> isspace c) s1)
        in if r = [] then [w] else [w, r])"

section \<open>PGNParser\<close>

text \<open>\<^verbatim>\<open>PGNElement = collections.namedtuple('PGNElement', 'name text')\<close>\<close>

record PGNElement =
  name :: string
  "text" :: string

text \<open>
  A successful \<^verbatim>\<open>regex.match(s)\<close>: the groups 1, 2, ... of the pattern and \<^verbatim>\<open>match.end()\<close>.
  \<^verbatim>\<open>match.group(1)\<close> raises IndexError when the pattern has no group.
\<close>

type_synonym re_match = "string list \<times> nat"

definition group1 :: "re_match \<Rightarrow> error + string" where
  "group1 m = (case fst m of [] \<Rightarrow> Inl (IndexError ''no such group'') | g # _ \<Rightarrow> Inr g)"

definition match_end :: "re_match \<Rightarrow> nat" where
  "match_end m = snd m"

text \<open>\<^verbatim>\<open>{([^}]*)}\<close>\<close>

definition comment_re :: "string \<Rightarrow> re_match option" where
  "comment_re s =
     (case s of
        [] \<Rightarrow> None
      | c # r \<Rightarrow>
          if c = CHR ''{'' then
            (let body = takeWhile (\<lambda>x. x \<noteq> CHR ''}'') r in
             case dropWhile (\<lambda>x. x \<noteq> CHR ''}'') r of
               [] \<Rightarrow> None
             | _ # _ \<Rightarrow> Some ([body], length body + 2))
          else None)"

text \<open>\<^verbatim>\<open>\(\<close> and \<^verbatim>\<open>\)\<close>: no group.\<close>

definition start_variation_re :: "string \<Rightarrow> re_match option" where
  "start_variation_re s =
     (case s of [] \<Rightarrow> None | c # _ \<Rightarrow> if c = CHR ''('' then Some ([], 1) else None)"

definition end_variation_re :: "string \<Rightarrow> re_match option" where
  "end_variation_re s =
     (case s of [] \<Rightarrow> None | c # _ \<Rightarrow> if c = CHR '')'' then Some ([], 1) else None)"

text \<open>
  \<^verbatim>\<open>([+-/=]{1,3})\<close>: inside the brackets \<^verbatim>\<open>+-/\<close> is the range of the five characters
  from \<^verbatim>\<open>+\<close> to \<^verbatim>\<open>/\<close> (plus, comma, minus, full stop, slash).
\<close>

definition evaluation_char :: "char \<Rightarrow> bool" where
  "evaluation_char c = (c \<in> set ''+,-./='')"

definition evaluation_re :: "string \<Rightarrow> re_match option" where
  "evaluation_re s =
     (let m = takeWhile evaluation_char (take 3 s) in
      if m = [] then None else Some ([m], length m))"

text \<open>\<^verbatim>\<open>((1-0)|(0-1)|(1/2-1/2))\<close>: only group 1, the whole match, is read.\<close>

definition result_re :: "string \<Rightarrow> re_match option" where
  "result_re s =
     (if startswith s ''1-0'' then Some ([''1-0''], 3)
      else if startswith s ''0-1'' then Some ([''0-1''], 3)
      else if startswith s ''1/2-1/2'' then Some ([''1/2-1/2''], 7)
      else None)"

definition game_regexes :: "(string \<times> (string \<Rightarrow> re_match option)) list" where
  "game_regexes =
     [(''comment'', comment_re),
      (''start-variation'', start_variation_re),
      (''end-variation'', end_variation_re),
      (''evaluation'', evaluation_re),
      (''result'', result_re)]"

text \<open>
  The \<^verbatim>\<open>for name, regex in self.game_regexes\<close> loop of \<^verbatim>\<open>parse_game\<close>: the element of
  the first pattern that matches and the content after the match; None is the
  \<^verbatim>\<open>else\<close> of the loop.
\<close>

fun match_regexes ::
  "(string \<times> (string \<Rightarrow> re_match option)) list \<Rightarrow> string \<Rightarrow> (PGNElement \<times> string) option"
where
  "match_regexes [] game_content = None"
| "match_regexes ((nm, regex) # rest) game_content =
     (case regex game_content of
        None \<Rightarrow> match_regexes rest game_content
      | Some m \<Rightarrow>
          Some (\<lparr>name = nm, text = (case group1 m of Inl _ \<Rightarrow> [] | Inr t \<Rightarrow> t)\<rparr>,
                drop (match_end m) game_content))"

text \<open>
  One iteration of the \<^verbatim>\<open>while True\<close> loop on the stripped, non-empty content: the
  element appended and the new content. Unpacking \<^verbatim>\<open>game_content.split(None, 1)\<close>
  into two names raises ValueError unless the list has two items.
\<close>

definition parse_game_step :: "string \<Rightarrow> error + (PGNElement \<times> string)" where
  "parse_game_step game_content =
     (case match_regexes game_regexes game_content of
        Some r \<Rightarrow> Inr r
      | None \<Rightarrow>
          (case split_None_1 game_content of
             [] \<Rightarrow> Inl (ValueError ''need more than 0 values to unpack'')
           | [move_text] \<Rightarrow> Inl (ValueError ''need more than 1 value to unpack'')
           | [move_text, rest] \<Rightarrow> Inr (\<lparr>name = ''move'', text = move_text\<rparr>, rest)
           | _ \<Rightarrow> Inl (ValueError ''too many values to unpack'')))"

lemma comment_re_pos: "comment_re s = Some m \<Longrightarrow> 0 < match_end m"
  by (auto simp: comment_re_def match_end_def Let_def split: list.splits if_splits)

lemma start_variation_re_pos: "start_variation_re s = Some m \<Longrightarrow> 0 < match_end m"
  by (auto simp: start_variation_re_def match_end_def split: list.splits if_splits)

lemma end_variation_re_pos: "end_variation_re s = Some m \<Longrightarrow> 0 < match_end m"
  by (auto simp: end_variation_re_def match_end_def split: list.splits if_splits)

lemma evaluation_re_pos: "evaluation_re s = Some m \<Longrightarrow> 0 < match_end m"
  by (auto simp: evaluation_re_def match_end_def Let_def split: if_splits)

lemma result_re_pos: "result_re s = Some m \<Longrightarrow> 0 < match_end m"
  unfolding result_re_def match_end_def by (auto split: if_splits)

lemma game_regexes_nonempty_match:
  assumes "(n, re) \<in> set game_regexes" and "re s = Some m"
  shows "0 < match_end m"
proof -
  from assms(1) have "re = comment_re \<or> re = start_variation_re \<or> re = end_variation_re
      \<or> re = evaluation_re \<or> re = result_re"
    unfolding game_regexes_def by auto
  with assms(2) show ?thesis
    using comment_re_pos start_variation_re_pos end_variation_re_pos evaluation_re_pos
      result_re_pos by blast
qed

lemma match_regexes_progress:
  assumes "match_regexes rs s = Some (e, r)"
    and "\<And>n re m. (n, re) \<in> set rs \<Longrightarrow> re s = Some m \<Longrightarrow> 0 < match_end m"
    and "s \<noteq> []"
  shows "length r < length s"
  using assms
proof (induction rs)
  case Nil
  then show ?case by simp
next
  case (Cons a rs)
  obtain n re where a: "a = (n, re)" by (cases a)
  show ?case
  proof (cases "re s")
    case None
    with Cons.prems(1) have "match_regexes rs s = Some (e, r)"
      by (simp add: a)
    moreover have "\<And>n re m. (n, re) \<in> set rs \<Longrightarrow> re s = Some m \<Longrightarrow> 0 < match_end m"
      using Cons.prems(2) by (meson list.set_intros(2))
    ultimately show ?thesis
      using Cons.prems(3) by (rule Cons.IH)
  next
    case (Some m)
    with Cons.prems(1) have r: "r = drop (match_end m) s"
      by (simp add: a)
    have "0 < match_end m"
      using Cons.prems(2) [of n re m] Some by (simp add: a)
    with Cons.prems(3) show ?thesis
      by (simp add: r)
  qed
qed

lemma length_dropWhile_less:
  assumes "s \<noteq> []" and "\<not> P (hd s)"
  shows "length (dropWhile P (dropWhile (\<lambda>c. \<not> P c) s)) < length s"
proof -
  obtain x xs where s: "s = x # xs"
    using assms(1) by (cases s) auto
  have "length (dropWhile P (dropWhile (\<lambda>c. \<not> P c) s)) \<le> length (dropWhile (\<lambda>c. \<not> P c) s)"
    by (rule length_dropWhile_le)
  also have "\<dots> = length (dropWhile (\<lambda>c. \<not> P c) xs)"
    using assms(2) by (simp add: s)
  also have "\<dots> \<le> length xs"
    by (rule length_dropWhile_le)
  finally show ?thesis
    by (simp add: s)
qed

lemma split_None_1_progress:
  assumes "split_None_1 s = [w, r]"
  shows "length r < length s"
proof -
  let ?s1 = "dropWhile isspace s"
  let ?w0 = "takeWhile (\<lambda>c. \<not> isspace c) ?s1"
  let ?r0 = "dropWhile isspace (dropWhile (\<lambda>c. \<not> isspace c) ?s1)"
  have ne: "?s1 \<noteq> []"
  proof
    assume "?s1 = []"
    then have "split_None_1 s = []"
      unfolding split_None_1_def Let_def by (simp only: refl if_True)
    with assms show False
      by simp
  qed
  then have "\<not> isspace (hd ?s1)"
    by (metis hd_dropWhile)
  with ne have "length ?r0 < length ?s1"
    by (rule length_dropWhile_less)
  moreover have "r = ?r0"
  proof -
    have "split_None_1 s = (if ?r0 = [] then [?w0] else [?w0, ?r0])"
      unfolding split_None_1_def Let_def using ne by (simp only: if_False)
    with assms show ?thesis
      by (cases "?r0 = []") (simp_all del: dropWhile_eq_Nil_conv)
  qed
  moreover have "length ?s1 \<le> length s"
    by (rule length_dropWhile_le)
  ultimately show ?thesis
    by simp
qed

lemma parse_game_step_progress:
  assumes "parse_game_step s = Inr (e, r)" and "s \<noteq> []"
  shows "length r < length s"
proof (cases "match_regexes game_regexes s")
  case None
  with assms(1) have "(case split_None_1 s of
        [] \<Rightarrow> Inl (ValueError ''need more than 0 values to unpack'')
      | [move_text] \<Rightarrow> Inl (ValueError ''need more than 1 value to unpack'')
      | [move_text, rest] \<Rightarrow> Inr (\<lparr>name = ''move'', text = move_text\<rparr>, rest)
      | _ \<Rightarrow> Inl (ValueError ''too many values to unpack'')) = Inr (e, r)"
    by (simp add: parse_game_step_def)
  then obtain w where "split_None_1 s = [w, r]"
    by (simp split: list.splits)
  then show ?thesis
    by (rule split_None_1_progress)
next
  case (Some p)
  with assms(1) have "match_regexes game_regexes s = Some (e, r)"
    by (simp add: parse_game_step_def)
  then show ?thesis
  proof (rule match_regexes_progress)
    fix n re m
    assume "(n, re) \<in> set game_regexes" and "re s = Some m"
    then show "0 < match_end m"
      by (rule game_regexes_nonempty_match)
  next
    show "s \<noteq> []"
      by (rule assms(2))
  qed
qed

text \<open>
  The \<^verbatim>\<open>while True\<close> loop of \<^verbatim>\<open>parse_game\<close>, from the list built so far and the content
  left; it returns both as they are when the loop breaks.
\<close>

function parse_game_loop :: "PGNElement list \<Rightarrow> string \<Rightarrow> error + (PGNElement list \<times> string)" where
  "parse_game_loop game game_content =
     (let game_content = lstrip game_content in
      if game_content = [] then Inr (game, game_content)
      else
        (case parse_game_step game_content of
           Inl e \<Rightarrow> Inl e
         | Inr (elt, rest) \<Rightarrow> parse_game_loop (game @ [elt]) rest))"
  by pat_completeness auto
termination
proof (relation "measure (\<lambda>(game, game_content). length game_content)")
  show "wf (measure (\<lambda>(game, game_content). length game_content))"
    by simp
next
  fix game :: "PGNElement list" and game_content x xa :: string and y :: "PGNElement \<times> string"
    and elt rest
  assume "x = lstrip game_content" "x \<noteq> []" "parse_game_step x = Inr y" "(elt, rest) = y"
  then have "length rest < length (lstrip game_content)"
    using parse_game_step_progress [of x elt rest] by simp
  moreover have "length (lstrip game_content) \<le> length game_content"
    by (simp add: lstrip_def length_dropWhile_le)
  ultimately show "((game @ [elt], rest), (game, game_content))
      \<in> measure (\<lambda>(game, game_content). length game_content)"
    by simp
qed

declare parse_game_loop.simps [simp del]

text \<open>
  \<^verbatim>\<open>parse_game\<close>: its argument is what \<^verbatim>\<open>parse_headers\<close> returned, a string or None;
  \<^verbatim>\<open>None.lstrip()\<close> raises the AttributeError
  \<^verbatim>\<open>'NoneType' object has no attribute 'lstrip'\<close>.
\<close>

definition None_has_no_lstrip :: error where
  "None_has_no_lstrip =
     AttributeError
       ([squote] @ ''NoneType'' @ [squote] @ '' object has no attribute ''
        @ [squote] @ ''lstrip'' @ [squote])"

definition parse_game :: "string option \<Rightarrow> error + PGNElement list" where
  "parse_game game_content =
     (case game_content of
        None \<Rightarrow> Inl None_has_no_lstrip
      | Some s \<Rightarrow>
          (case parse_game_loop [] s of Inl e \<Rightarrow> Inl e | Inr (game, _) \<Rightarrow> Inr game))"

text \<open>
  \<^verbatim>\<open>combine_moves\<close>: the \<^verbatim>\<open>for elt in self.game\<close> loop with its two local lists. Nothing
  follows the loop but the assignment of \<^verbatim>\<open>new_game\<close> to \<^verbatim>\<open>self.game\<close>.
\<close>

fun combine_moves_loop ::
  "string list \<Rightarrow> PGNElement list \<Rightarrow> PGNElement list \<Rightarrow> PGNElement list"
where
  "combine_moves_loop current_moves new_game [] = new_game"
| "combine_moves_loop current_moves new_game (elt # rest) =
     (if name elt = ''move'' then
        combine_moves_loop (current_moves @ [text elt]) new_game rest
      else if current_moves \<noteq> [] then
        combine_moves_loop []
          (new_game @ [\<lparr>name = ''moves'', text = join '' '' current_moves\<rparr>] @ [elt]) rest
      else
        combine_moves_loop current_moves (new_game @ [elt]) rest)"

definition combine_moves :: "PGNElement list \<Rightarrow> PGNElement list" where
  "combine_moves game = combine_moves_loop [] [] game"

text \<open>
  \<^verbatim>\<open>header_re = re.compile(r' *\[([^ ]+) "([^"]+)"\]')\<close>, matched at the start of the
  line; what follows the closing bracket is not looked at. Each repetition can only stop
  at the first character it excludes, so the match is found without backtracking.
\<close>

definition header_re :: "string \<Rightarrow> re_match option" where
  "header_re s =
     (let sp = takeWhile (\<lambda>c. c = CHR '' '') s;
          s1 = dropWhile (\<lambda>c. c = CHR '' '') s
      in case s1 of
           [] \<Rightarrow> None
         | b # s2 \<Rightarrow>
             if b \<noteq> CHR ''['' then None
             else
               let k = takeWhile (\<lambda>c. c \<noteq> CHR '' '') s2;
                   s3 = dropWhile (\<lambda>c. c \<noteq> CHR '' '') s2
               in if k = [] then None
                  else
                    (case s3 of
                       _ # q # s4 \<Rightarrow>
                         if q \<noteq> dquote then None
                         else
                           let v = takeWhile (\<lambda>c. c \<noteq> dquote) s4;
                               s5 = dropWhile (\<lambda>c. c \<noteq> dquote) s4
                           in if v = [] then None
                              else
                                (case s5 of
                                   _ # e # _ \<Rightarrow>
                                     if e = CHR '']''
                                     then Some ([k, v], length sp + length k + length v + 5)
                                     else None
                                 | _ \<Rightarrow> None)
                     | _ \<Rightarrow> None))"

definition group2 :: "re_match \<Rightarrow> error + string" where
  "group2 m = (case fst m of _ # g # _ \<Rightarrow> Inr g | _ \<Rightarrow> Inl (IndexError ''no such group''))"

text \<open>Sequencing of two steps of which the first may raise.\<close>

definition seq :: "error + 'a \<Rightarrow> ('a \<Rightarrow> error + 'b) \<Rightarrow> error + 'b" where
  "seq m f = (case m of Inl e \<Rightarrow> Inl e | Inr x \<Rightarrow> f x)"

lemma seq_cong [fundef_cong]:
  assumes "m = m'" and "\<And>x. m' = Inr x \<Longrightarrow> f x = f' x"
  shows "seq m f = seq m' f'"
  using assms by (simp add: seq_def split: sum.splits)

lemma seq_Inr [simp]: "seq (Inr x) f = f x"
  by (simp add: seq_def)

lemma seq_Inl [simp]: "seq (Inl e) f = Inl e"
  by (simp add: seq_def)

text \<open>
  \<^verbatim>\<open>parse_headers\<close>: the loop over \<^verbatim>\<open>content.split("\n")\<close>, from the dictionary built so
  far; \<^verbatim>\<open>rest\<close> is \<^verbatim>\<open>lines[i+1:]\<close>. When the loop runs out of lines the method falls off
  its end and returns None.
\<close>

fun parse_headers_loop ::
  "(string \<rightharpoonup> string) \<Rightarrow> string list \<Rightarrow> error + ((string \<rightharpoonup> string) \<times> string option)"
where
  "parse_headers_loop headers [] = Inr (headers, None)"
| "parse_headers_loop headers (line # rest) =
     (if strip line = [] then Inr (headers, Some (join [newline] rest))
      else
        (case header_re line of
           None \<Rightarrow> Inl (ValueError (''Cant parse header: '' @ line))
         | Some m \<Rightarrow>
             seq (group1 m) (\<lambda>k.
             seq (group2 m) (\<lambda>v.
               parse_headers_loop (headers(lower k \<mapsto> v)) rest))))"

definition parse_headers :: "string \<Rightarrow> error + ((string \<rightharpoonup> string) \<times> string option)" where
  "parse_headers content = parse_headers_loop Map.empty (split newline content)"

record PGNParser =
  headers :: "string \<rightharpoonup> string"
  game :: "PGNElement list"

text \<open>\<^verbatim>\<open>PGNParser.__init__\<close>, from the content of the file at \<^verbatim>\<open>path\<close>.\<close>

definition PGNParser_init :: "string \<Rightarrow> error + PGNParser" where
  "PGNParser_init content =
     seq (parse_headers content) (\<lambda>(hs, game_content).
     seq (parse_game game_content) (\<lambda>g.
       Inr \<lparr>headers = hs, game = combine_moves g @ [\<lparr>name = ''end'', text = []\<rparr>]\<rparr>))"

section \<open>TEXWriter\<close>

text \<open>
  Two functions of Python's library are used on text that the input controls. What
  they do outside the cases written out below is a parameter of the model:
  \<^verbatim>\<open>wrap_long\<close> is \<^verbatim>\<open>textwrap.wrap(line, 78)\<close> on a line longer than 78 characters or with
  a tab in it, and \<^verbatim>\<open>format_directive\<close> is what the \<^verbatim>\<open>%\<close> operator makes of a conversion
  other than \<^verbatim>\<open>%s\<close> and \<^verbatim>\<open>%%\<close> (its arguments: the format from the character after the
  per cent sign on, and the arguments not yet used).
\<close>

record pylib =
  wrap_long :: "string \<Rightarrow> string list"
  format_directive :: "string \<Rightarrow> string list \<Rightarrow> error + string"

text \<open>\<^verbatim>\<open>line % args\<close>, for a tuple \<^verbatim>\<open>args\<close> of strings.\<close>

fun py_format :: "pylib \<Rightarrow> string \<Rightarrow> string list \<Rightarrow> error + string" where
  "py_format lib [] args =
     (if args = [] then Inr []
      else Inl (TypeError ''not all arguments converted during string formatting''))"
| "py_format lib (c # fmt) args =
     (if c \<noteq> CHR ''%'' then seq (py_format lib fmt args) (\<lambda>r. Inr (c # r))
      else
        (case fmt of
           [] \<Rightarrow> Inl (ValueError ''incomplete format'')
         | d # fmt' \<Rightarrow>
             if d = CHR ''%'' then seq (py_format lib fmt' args) (\<lambda>r. Inr (CHR ''%'' # r))
             else if d = CHR ''s'' then
               (case args of
                  [] \<Rightarrow> Inl (TypeError ''not enough arguments for format string'')
                | a # args' \<Rightarrow> seq (py_format lib fmt' args') (\<lambda>r. Inr (a @ r)))
             else format_directive lib fmt args))"

text \<open>
  \<^verbatim>\<open>textwrap.wrap(line, 78)\<close>. A line of at most 78 characters without a tab is not
  broken: its white space characters become spaces, the white space at its end is
  dropped, and a line with nothing left gives no line at all.
\<close>

definition wrap :: "pylib \<Rightarrow> string \<Rightarrow> string list" where
  "wrap lib line =
     (if length line \<le> 78 \<and> CHR 0x09 \<notin> set line then
        (let r = rstrip (map (\<lambda>c. if isspace c then CHR '' '' else c) line)
         in if r = [] then [] else [r])
      else wrap_long lib line)"

record TEXWriter =
  out :: string
  variation_counter :: nat
  variation_stack :: "string list"

text \<open>\<^verbatim>\<open>TEXWriter.__init__\<close>: \<^verbatim>\<open>itertools.count()\<close> starts at 0.\<close>

definition TEXWriter_init :: TEXWriter where
  "TEXWriter_init = \<lparr>out = [], variation_counter = 0, variation_stack = []\<rparr>"

text \<open>\<^verbatim>\<open>write(line, *args, paragraph=..., trailing_newline=...)\<close>\<close>

definition "write" ::
  "pylib \<Rightarrow> string \<Rightarrow> string list \<Rightarrow> bool \<Rightarrow> bool \<Rightarrow> TEXWriter \<Rightarrow> error + TEXWriter"
where
  "write lib line args paragraph trailing_newline self =
     seq (py_format lib line args) (\<lambda>line.
       Inr (self\<lparr>out :=
         out self
         @ (if paragraph then [newline] else [])
         @ join [newline] (wrap lib line) @ [newline]
         @ (if paragraph \<or> trailing_newline then [newline] else [])\<rparr>))"

definition start :: "pylib \<Rightarrow> TEXWriter \<Rightarrow> error + TEXWriter" where
  "start lib self =
     seq (write lib (backslash # ''documentclass[a4paper]{article}'') [] False False self) (\<lambda>self.
     seq (write lib (backslash # ''usepackage{xskak}'') [] False False self) (\<lambda>self.
     seq (write lib (backslash # ''setlength{'' @ backslash # ''parskip}{1em}'') [] False False self)
       (\<lambda>self.
     seq (write lib (backslash # ''begin{document}'') [] False False self) (\<lambda>self.
     seq (write lib [] [] False False self) (\<lambda>self.
     write lib (backslash # ''newchessgame[id=main]'') [] False False self)))))"

definition write_title :: "pylib \<Rightarrow> string \<Rightarrow> TEXWriter \<Rightarrow> error + TEXWriter" where
  "write_title lib title self = write lib (backslash # ''section{%s}'') [title] False False self"

definition make_diagram :: "pylib \<Rightarrow> TEXWriter \<Rightarrow> error + TEXWriter" where
  "make_diagram lib self = write lib (backslash # ''chessboard'') [] True False self"

definition cur_var :: "TEXWriter \<Rightarrow> string" where
  "cur_var self = (if variation_stack self = [] then ''main'' else last (variation_stack self))"

text \<open>\<^verbatim>\<open>str(n)\<close> for a natural number.\<close>

fun str_nat :: "nat \<Rightarrow> string" where
  "str_nat n =
     (if n < 10 then [''0123456789'' ! n]
      else str_nat (n div 10) @ [''0123456789'' ! (n mod 10)])"

declare str_nat.simps [simp del]

definition start_variation :: "pylib \<Rightarrow> TEXWriter \<Rightarrow> error + TEXWriter" where
  "start_variation lib self =
     (let var = ''var'' @ str_nat (variation_counter self);
          self = self\<lparr>variation_counter := variation_counter self + 1\<rparr>
      in seq (write lib (backslash # ''newchessgame[newvar=%s, id=%s]'') [cur_var self, var]
                False False self) (\<lambda>self.
           Inr (self\<lparr>variation_stack := variation_stack self @ [var]\<rparr>)))"

text \<open>\<^verbatim>\<open>self.variation_stack.pop()\<close> raises IndexError on the empty list.\<close>

definition end_variation :: "pylib \<Rightarrow> TEXWriter \<Rightarrow> error + TEXWriter" where
  "end_variation lib self =
     (if variation_stack self = [] then Inl (IndexError ''pop from empty list'')
      else
        let self = self\<lparr>variation_stack := butlast (variation_stack self)\<rparr>
        in write lib (backslash # ''resumechessgame[id=%s]'') [cur_var self]
             False (length (variation_stack self) = 0) self)"

definition setup_board :: "pylib \<Rightarrow> string \<Rightarrow> TEXWriter \<Rightarrow> error + TEXWriter" where
  "setup_board lib fen self = write lib (backslash # ''fenboard{%s}'') [fen] False False self"

definition write_moves :: "pylib \<Rightarrow> string \<Rightarrow> TEXWriter \<Rightarrow> error + TEXWriter" where
  "write_moves lib moves self = write lib (backslash # ''mainline { %s }'') [moves] False False self"

definition end_writer :: "pylib \<Rightarrow> TEXWriter \<Rightarrow> error + TEXWriter" where
  "end_writer lib self =
     seq (write lib [] [] False False self) (\<lambda>self.
     write lib (backslash # ''end{document}'') [] False False self)"

section \<open>PGN2PDF\<close>

record PGN2PDF =
  pgn :: PGNParser
  tex :: TEXWriter
  game_index :: nat

text \<open>A call \<^verbatim>\<open>self.tex.method(...)\<close>: the writer is replaced by the one the method leaves.\<close>

definition with_tex :: "(TEXWriter \<Rightarrow> error + TEXWriter) \<Rightarrow> PGN2PDF \<Rightarrow> error + PGN2PDF" where
  "with_tex method self = seq (method (tex self)) (\<lambda>t. Inr (self\<lparr>tex := t\<rparr>))"

text \<open>\<^verbatim>\<open>self.pgn.headers[color].split(',')[0]\<close>\<close>

definition make_name :: "PGN2PDF \<Rightarrow> string \<Rightarrow> error + string" where
  "make_name self color =
     (case headers (pgn self) color of
        None \<Rightarrow> Inl (KeyError color)
      | Some v \<Rightarrow>
          (case split CHR '','' v of
             [] \<Rightarrow> Inl (IndexError ''list index out of range'')
           | n # _ \<Rightarrow> Inr n))"

definition make_title :: "PGN2PDF \<Rightarrow> error + string" where
  "make_title self =
     seq (make_name self ''white'') (\<lambda>w.
     seq (make_name self ''black'') (\<lambda>b.
       let title = w @ '' - '' @ b in
       (case headers (pgn self) ''site'' of
          None \<Rightarrow> Inr title
        | Some site \<Rightarrow>
            (case headers (pgn self) ''date'' of
               None \<Rightarrow> Inr title
             | Some date \<Rightarrow>
                 (case split CHR ''.'' date of
                    [] \<Rightarrow> Inl (IndexError ''list index out of range'')
                  | y # _ \<Rightarrow> Inr (title @ '' '' @ site @ '' '' @ y))))))"

text \<open>\<^verbatim>\<open>self.pgn.game[self.game_index]\<close>\<close>

definition current_elt :: "PGN2PDF \<Rightarrow> error + PGNElement" where
  "current_elt self =
     (if game_index self < length (game (pgn self))
      then Inr (game (pgn self) ! game_index self)
      else Inl (IndexError ''list index out of range''))"

definition advance_game_index :: "PGN2PDF \<Rightarrow> PGN2PDF" where
  "advance_game_index self = self\<lparr>game_index := game_index self + 1\<rparr>"

text \<open>
  The loop of \<^verbatim>\<open>parse_comment\<close> over \<^verbatim>\<open>text.split("\n")\<close>: each line is stripped, an
  empty one is skipped, any other is written as a paragraph.
\<close>

fun write_comment_lines :: "pylib \<Rightarrow> PGN2PDF \<Rightarrow> string list \<Rightarrow> error + PGN2PDF" where
  "write_comment_lines lib self [] = Inr self"
| "write_comment_lines lib self (line # rest) =
     (let line = strip line in
      if line = [] then write_comment_lines lib self rest
      else seq (with_tex (write lib line [] True False) self) (\<lambda>self.
             write_comment_lines lib self rest))"

text \<open>
  \<^verbatim>\<open>parse_comment\<close> runs in the body of the loop of \<^verbatim>\<open>write_game\<close>, after the
  iterator has advanced: \<^verbatim>\<open>self.current_elt\<close> is the element that follows the comment.
  Its three blocks after the inline case come first, each as a function of its own.

  The block \<^verbatim>\<open>if self.current_elt.name == 'end-variation': ... else: ...\<close>, with the
  value it leaves in \<^verbatim>\<open>end_variation\<close>:
\<close>

definition comment_lookahead :: "pylib \<Rightarrow> PGN2PDF \<Rightarrow> error + (PGN2PDF \<times> bool)" where
  "comment_lookahead lib self =
     seq (current_elt self) (\<lambda>elt.
       if name elt = ''end-variation'' then
         seq (with_tex (write lib '')'' [] False False) self) (\<lambda>self.
           Inr (advance_game_index self, True))
       else Inr (self, False))"

text \<open>The block \<^verbatim>\<open>if text.startswith("(D)"): ...\<close>, with the value it leaves in \<^verbatim>\<open>text\<close>:\<close>

definition comment_diagram :: "pylib \<Rightarrow> string \<Rightarrow> PGN2PDF \<Rightarrow> error + (PGN2PDF \<times> string)" where
  "comment_diagram lib txt self =
     (if startswith txt ''(D)'' then
        seq (with_tex (make_diagram lib) self) (\<lambda>self. Inr (self, strip (drop 3 txt)))
      else Inr (self, txt))"

text \<open>The block \<^verbatim>\<open>if end_variation: ...\<close> that ends the method:\<close>

definition comment_end_variation :: "pylib \<Rightarrow> bool \<Rightarrow> PGN2PDF \<Rightarrow> error + PGN2PDF" where
  "comment_end_variation lib end_var self =
     (if end_var then
        seq (with_tex (end_variation lib) self) (\<lambda>self.
          with_tex (write lib [] [] False False) self)
      else Inr self)"

text \<open>\<^verbatim>\<open>text[0]\<close> raises IndexError on the empty string.\<close>

definition parse_comment :: "pylib \<Rightarrow> string \<Rightarrow> PGN2PDF \<Rightarrow> error + PGN2PDF" where
  "parse_comment lib txt self =
     (case txt of
        [] \<Rightarrow> Inl (IndexError ''string index out of range'')
      | c # _ \<Rightarrow>
          if islower c then with_tex (write lib txt [] False False) self
          else
            seq (comment_lookahead lib self) (\<lambda>(self, end_var).
            seq (comment_diagram lib txt self) (\<lambda>(self, txt).
            seq (write_comment_lines lib self (split newline txt)) (\<lambda>self.
              comment_end_variation lib end_var self))))"

text \<open>
  The body of the loop of \<^verbatim>\<open>write_game\<close> for one element; the flag is False when the
  body leaves the loop with \<^verbatim>\<open>break\<close>.
\<close>

definition write_elt :: "pylib \<Rightarrow> PGNElement \<Rightarrow> PGN2PDF \<Rightarrow> error + (bool \<times> PGN2PDF)" where
  "write_elt lib elt self =
     (if name elt = ''moves'' then
        seq (with_tex (write_moves lib (text elt)) self) (\<lambda>self. Inr (True, self))
      else if name elt = ''comment'' then
        seq (parse_comment lib (text elt) self) (\<lambda>self. Inr (True, self))
      else if name elt = ''evaluation'' then
        seq (with_tex (write lib (text elt) [] False False) self) (\<lambda>self. Inr (True, self))
      else if name elt = ''result'' then
        seq (with_tex (write lib (text elt) [] True False) self) (\<lambda>self. Inr (True, self))
      else if name elt = ''start-variation'' then
        seq (with_tex (write lib ''('' [] False False) self) (\<lambda>self.
        seq (with_tex (start_variation lib) self) (\<lambda>self. Inr (True, self)))
      else if name elt = ''end-variation'' then
        seq (with_tex (write lib '')'' [] False False) self) (\<lambda>self.
        seq (with_tex (end_variation lib) self) (\<lambda>self. Inr (True, self)))
      else if name elt = ''end'' then Inr (False, self)
      else Inl (ValueError (''Unknown PGN element: '' @ name elt)))"

lemma seq_eq_Inr: "(seq m f = Inr y) = (\<exists>x. m = Inr x \<and> f x = Inr y)"
  by (cases m) simp_all

text \<open>No method of the writer touches the parsed game or moves the cursor back.\<close>

definition same_game :: "PGN2PDF \<Rightarrow> PGN2PDF \<Rightarrow> bool" where
  "same_game self self' = (pgn self' = pgn self \<and> game_index self \<le> game_index self')"

lemma same_game_refl: "same_game self self"
  by (simp add: same_game_def)

lemma same_game_trans: "same_game a b \<Longrightarrow> same_game b c \<Longrightarrow> same_game a c"
  by (simp add: same_game_def)

lemma with_tex_same_game: "with_tex method self = Inr self' \<Longrightarrow> same_game self self'"
  by (auto simp: with_tex_def seq_eq_Inr same_game_def)

lemma advance_same_game: "same_game self (advance_game_index self)"
  by (simp add: same_game_def advance_game_index_def)

lemma write_comment_lines_same_game:
  "write_comment_lines lib self ls = Inr self' \<Longrightarrow> same_game self self'"
proof (induction ls arbitrary: self)
  case Nil
  then show ?case by (simp add: same_game_refl)
next
  case (Cons l ls)
  show ?case
  proof (cases "strip l = []")
    case True
    with Cons show ?thesis by simp
  next
    case False
    with Cons.prems obtain s1 where
      "with_tex (write lib (strip l) [] True False) self = Inr s1"
      "write_comment_lines lib s1 ls = Inr self'"
      by (auto simp: seq_eq_Inr)
    then show ?thesis
      using Cons.IH with_tex_same_game same_game_trans by blast
  qed
qed

lemma seqE:
  assumes "seq m f = Inr y"
  obtains x where "m = Inr x" and "f x = Inr y"
  using assms by (cases m) simp_all

lemma comment_lookahead_same_game:
  assumes "comment_lookahead lib self = Inr (self', ev)"
  shows "same_game self self'"
  using assms unfolding comment_lookahead_def
  by (auto simp: seq_eq_Inr same_game_def advance_game_index_def split: if_splits
      dest!: with_tex_same_game [unfolded same_game_def])

lemma comment_diagram_same_game:
  assumes "comment_diagram lib t self = Inr (self', t')"
  shows "same_game self self'"
  using assms unfolding comment_diagram_def
  by (auto simp: seq_eq_Inr same_game_def split: if_splits
      dest!: with_tex_same_game [unfolded same_game_def])

lemma comment_end_variation_same_game:
  assumes "comment_end_variation lib ev self = Inr self'"
  shows "same_game self self'"
  using assms unfolding comment_end_variation_def
  by (auto simp: seq_eq_Inr same_game_def split: if_splits
      dest!: with_tex_same_game [unfolded same_game_def])

lemma parse_comment_same_game:
  assumes "parse_comment lib t self = Inr self'"
  shows "same_game self self'"
proof (cases t)
  case Nil
  with assms show ?thesis by (simp add: parse_comment_def)
next
  case (Cons c cs)
  show ?thesis
  proof (cases "islower c")
    case True
    with assms Cons show ?thesis
      by (simp add: parse_comment_def with_tex_same_game)
  next
    case False
    with assms Cons have "seq (comment_lookahead lib self) (\<lambda>(self, end_var).
            seq (comment_diagram lib t self) (\<lambda>(self, t).
            seq (write_comment_lines lib self (split newline t)) (\<lambda>self.
              comment_end_variation lib end_var self))) = Inr self'"
      by (simp add: parse_comment_def)
    then obtain p1 where p1: "comment_lookahead lib self = Inr p1"
      and r1: "(case p1 of (self, end_var) \<Rightarrow>
            seq (comment_diagram lib t self) (\<lambda>(self, t).
            seq (write_comment_lines lib self (split newline t)) (\<lambda>self.
              comment_end_variation lib end_var self))) = Inr self'"
      by (rule seqE)
    obtain s1 ev where p1_eq: "p1 = (s1, ev)" by (cases p1)
    from r1 obtain p2 where p2: "comment_diagram lib t s1 = Inr p2"
      and r2: "(case p2 of (self, t) \<Rightarrow>
            seq (write_comment_lines lib self (split newline t)) (\<lambda>self.
              comment_end_variation lib ev self)) = Inr self'"
      unfolding p1_eq prod.case by (rule seqE)
    obtain s2 t2 where p2_eq: "p2 = (s2, t2)" by (cases p2)
    from r2 obtain s3 where p3: "write_comment_lines lib s2 (split newline t2) = Inr s3"
      and r3: "comment_end_variation lib ev s3 = Inr self'"
      unfolding p2_eq prod.case by (rule seqE)
    have "same_game self s1"
      using p1 unfolding p1_eq by (rule comment_lookahead_same_game)
    moreover have "same_game s1 s2"
      using p2 unfolding p2_eq by (rule comment_diagram_same_game)
    moreover have "same_game s2 s3"
      using p3 by (rule write_comment_lines_same_game)
    moreover have "same_game s3 self'"
      using r3 by (rule comment_end_variation_same_game)
    ultimately show ?thesis
      by (blast intro: same_game_trans)
  qed
qed

lemma write_elt_same_game:
  assumes "write_elt lib elt self = Inr (continue, self')"
  shows "same_game self self'"
  using assms unfolding write_elt_def
  by (auto simp: seq_eq_Inr same_game_def split: if_splits
      dest!: with_tex_same_game [unfolded same_game_def]
        parse_comment_same_game [unfolded same_game_def])

text \<open>
  \<^verbatim>\<open>write_game\<close>: the \<^verbatim>\<open>for\<close> loop over \<^verbatim>\<open>game_iterator()\<close>, which yields the element
  under the cursor after advancing the cursor, as long as the cursor is inside the list.
\<close>

function write_game :: "pylib \<Rightarrow> PGN2PDF \<Rightarrow> error + PGN2PDF" where
  "write_game lib self =
     (if game_index self < length (game (pgn self)) then
        (let elt = game (pgn self) ! game_index self in
         seq (write_elt lib elt (advance_game_index self)) (\<lambda>(continue, self).
           if continue then write_game lib self else Inr self))
      else Inr self)"
  by pat_completeness auto
termination
proof (relation "measure (\<lambda>(lib, self). length (game (pgn self)) - game_index self)")
  show "wf (measure (\<lambda>(lib, self). length (game (pgn self)) - game_index self))"
    by simp
next
  fix lib :: pylib and self :: PGN2PDF and x xa and continue :: bool and self' :: PGN2PDF
  assume lt: "game_index self < length (game (pgn self))"
    and "write_elt lib x (advance_game_index self) = Inr xa"
    and "(continue, self') = xa"
  then have "same_game (advance_game_index self) self'"
    using write_elt_same_game [of lib x "advance_game_index self" continue self'] by simp
  with lt show "((lib, self'), (lib, self))
      \<in> measure (\<lambda>(lib, self). length (game (pgn self)) - game_index self)"
    by (auto simp: same_game_def advance_game_index_def)
qed

declare write_game.simps [simp del]

definition convert :: "pylib \<Rightarrow> PGN2PDF \<Rightarrow> error + PGN2PDF" where
  "convert lib self =
     seq (with_tex (start lib) self) (\<lambda>self.
     seq (make_title self) (\<lambda>title.
     seq (with_tex (write_title lib title) self) (\<lambda>self.
     seq (case headers (pgn self) ''fen'' of
            None \<Rightarrow> Inr self
          | Some fen \<Rightarrow>
              seq (with_tex (setup_board lib fen) self) (\<lambda>self.
                with_tex (make_diagram lib) self)) (\<lambda>self.
     seq (write_game lib self) (\<lambda>self.
       with_tex (end_writer lib) self)))))"

text \<open>
  \<^verbatim>\<open>PGN2PDF.__init__\<close> with one argument, from the content of the file it names: the
  text of the document that \<^verbatim>\<open>print_tex\<close> prints.
\<close>

definition PGN2PDF_init :: "pylib \<Rightarrow> string \<Rightarrow> error + string" where
  "PGN2PDF_init lib content =
     seq (PGNParser_init content) (\<lambda>p.
     seq (convert lib \<lparr>pgn = p, tex = TEXWriter_init, game_index = 0\<rparr>) (\<lambda>self.
       Inr (out (tex self))))"

section \<open>The tokenizer\<close>

lemma split_None_1_nonspace:
  assumes "s \<noteq> []" and "\<not> isspace (hd s)"
  shows "\<exists>w. split_None_1 s = [w] \<or> (\<exists>r. split_None_1 s = [w, r])"
proof -
  from assms have "dropWhile isspace s = s"
    by (cases s) simp_all
  with assms(1) show ?thesis
    unfolding split_None_1_def Let_def by (simp del: dropWhile_eq_Nil_conv)
qed

lemma parse_game_step_error:
  assumes "parse_game_step s = Inl e" and "s \<noteq> []" and "\<not> isspace (hd s)"
  shows "e = ValueError ''need more than 1 value to unpack''"
proof -
  from split_None_1_nonspace [OF assms(2,3)] obtain w where
    "split_None_1 s = [w] \<or> (\<exists>r. split_None_1 s = [w, r])" ..
  with assms(1) show ?thesis
    unfolding parse_game_step_def by (auto split: option.splits)
qed

lemma lstrip_nonspace: "lstrip s \<noteq> [] \<Longrightarrow> \<not> isspace (hd (lstrip s))"
  unfolding lstrip_def by (rule hd_dropWhile)

lemma parse_game_loop_stop:
  "lstrip s = [] \<Longrightarrow> parse_game_loop acc s = Inr (acc, [])"
  by (subst parse_game_loop.simps) (simp add: Let_def)

lemma parse_game_loop_error:
  "lstrip s \<noteq> [] \<Longrightarrow> parse_game_step (lstrip s) = Inl e \<Longrightarrow> parse_game_loop acc s = Inl e"
  by (subst parse_game_loop.simps) (simp add: Let_def)

lemma parse_game_loop_step:
  "lstrip s \<noteq> [] \<Longrightarrow> parse_game_step (lstrip s) = Inr (elt, rest)
    \<Longrightarrow> parse_game_loop acc s = parse_game_loop (acc @ [elt]) rest"
  by (subst parse_game_loop.simps) (simp add: Let_def)

lemma parse_game_loop_result:
  "(parse_game_loop acc s = Inl e \<longrightarrow> e = ValueError ''need more than 1 value to unpack'')
   \<and> (parse_game_loop acc s = Inr (g, r) \<longrightarrow> r = [])"
proof (induction acc s rule: parse_game_loop.induct)
  case (1 acc game_content)
  show ?case
  proof (cases "lstrip game_content = []")
    case True
    then show ?thesis
      by (simp only: parse_game_loop_stop) simp
  next
    case False
    show ?thesis
    proof (cases "parse_game_step (lstrip game_content)")
      case (Inl e')
      have "e' = ValueError ''need more than 1 value to unpack''"
        using Inl False lstrip_nonspace [OF False] by (rule parse_game_step_error)
      moreover have "parse_game_loop acc game_content = Inl e'"
        using False Inl by (rule parse_game_loop_error)
      ultimately show ?thesis
        by (simp only:) simp
    next
      case (Inr p)
      obtain elt rest where p: "p = (elt, rest)" by (cases p)
      have "parse_game_loop acc game_content = parse_game_loop (acc @ [elt]) rest"
        using False Inr unfolding p by (rule parse_game_loop_step)
      with "1.IH" [OF refl False Inr p [symmetric]] show ?thesis
        by (simp only:)
    qed
  qed
qed

text \<open>
  Claim C2. For every movetext the tokenizer terminates: \<^const>\<open>parse_game_loop\<close> is a total
  function, its termination proved from the measure of the remaining content. Started on
  any string it either leaves the loop with an empty remainder and the flat list of
  elements, or it fails with the one error the loop can raise, the ValueError of the
  failed unpacking (the tokenizer's malformed-movetext error). Every iteration that does
  not fail leaves strictly less content than it found.
\<close>

theorem tokenizer_total:
  "(parse_game_loop [] s = Inl (ValueError ''need more than 1 value to unpack'')
      \<or> (\<exists>g. parse_game_loop [] s = Inr (g, [])))
   \<and> (\<forall>elt rest. lstrip s \<noteq> [] \<longrightarrow> parse_game_step (lstrip s) = Inr (elt, rest)
          \<longrightarrow> length rest < length s)"
proof
  show "parse_game_loop [] s = Inl (ValueError ''need more than 1 value to unpack'')
      \<or> (\<exists>g. parse_game_loop [] s = Inr (g, []))"
  proof (cases "parse_game_loop [] s")
    case (Inl e)
    with parse_game_loop_result [of "[]" s e] show ?thesis by simp
  next
    case (Inr p)
    obtain g r where "p = (g, r)" by (cases p)
    with Inr parse_game_loop_result [of "[]" s _ g r] show ?thesis by simp
  qed
next
  show "\<forall>elt rest. lstrip s \<noteq> [] \<longrightarrow> parse_game_step (lstrip s) = Inr (elt, rest)
          \<longrightarrow> length rest < length s"
  proof (intro allI impI)
    fix elt rest
    assume "lstrip s \<noteq> []" and "parse_game_step (lstrip s) = Inr (elt, rest)"
    then have "length rest < length (lstrip s)"
      by (rule parse_game_step_progress [rotated])
    moreover have "length (lstrip s) \<le> length s"
      by (simp add: lstrip_def length_dropWhile_le)
    ultimately show "length rest < length s" by simp
  qed
qed

theorem tokenizer_total_witness:
  "lstrip ''( e4'' \<noteq> []
   \<and> parse_game_step (lstrip ''( e4'') = Inr (\<lparr>name = ''start-variation'', text = []\<rparr>, '' e4'')
   \<and> length '' e4'' < length ''( e4''"
  using tokenizer_total [of "''( e4''"]
  by (simp add: lstrip_def isspace_def parse_game_step_def game_regexes_def comment_re_def
      start_variation_re_def group1_def match_end_def)

text \<open>The definitions that the evaluation of a concrete input unfolds.\<close>

lemmas string_defs = dquote_def newline_def backslash_def isspace_def strip_def lstrip_def rstrip_def
  startswith_def lower_def lower_char_def islower_def

lemmas parser_defs = parse_headers_def header_re_def group1_def group2_def match_end_def
  parse_game_def parse_game_step_def game_regexes_def comment_re_def start_variation_re_def
  end_variation_re_def evaluation_re_def evaluation_char_def result_re_def split_None_1_def
  combine_moves_def PGNParser_init_def parse_game_loop.simps

lemmas writer_defs = wrap_def write_def start_def write_title_def make_diagram_def
  cur_var_def start_variation_def end_variation_def setup_board_def write_moves_def
  end_writer_def TEXWriter_init_def

lemmas generator_defs = with_tex_def make_name_def make_title_def current_elt_def
  advance_game_index_def comment_lookahead_def comment_diagram_def comment_end_variation_def
  parse_comment_def write_elt_def convert_def PGN2PDF_init_def write_game.simps

section \<open>The aggregator\<close>

lemma combine_moves_loop_no_move:
  "\<forall>e \<in> set g. name e \<noteq> ''move'' \<Longrightarrow> combine_moves_loop [] acc g = acc @ g"
  by (induction g arbitrary: acc) simp_all

lemma combine_moves_loop_output:
  "\<forall>e \<in> set acc. name e \<noteq> ''move''
    \<Longrightarrow> \<forall>e \<in> set (combine_moves_loop ms acc g). name e \<noteq> ''move''"
proof (induction g arbitrary: ms acc)
  case Nil
  then show ?case by simp
next
  case (Cons elt g)
  show ?case
  proof (cases "name elt = ''move''")
    case True
    with Cons.IH [OF Cons.prems] show ?thesis by simp
  next
    case False
    have a: "\<forall>e \<in> set (acc @ [\<lparr>name = ''moves'', text = join '' '' ms\<rparr>] @ [elt]). name e \<noteq> ''move''"
      using Cons.prems False by simp
    have b: "\<forall>e \<in> set (acc @ [elt]). name e \<noteq> ''move''"
      using Cons.prems False by simp
    show ?thesis
      using False Cons.IH [OF a, of "[]"] Cons.IH [OF b, of ms] by simp
  qed
qed

lemma combine_moves_output: "\<forall>e \<in> set (combine_moves g). name e \<noteq> ''move''"
  unfolding combine_moves_def by (rule combine_moves_loop_output) simp

text \<open>
  Claim C6. The aggregator is idempotent: no element named \<^verbatim>\<open>move\<close> is left in what it
  returns, and run on what it has returned it returns the same list.
\<close>

theorem combine_moves_idempotent:
  "combine_moves (combine_moves g) = combine_moves g
   \<and> filter (\<lambda>e. name e = ''move'') (combine_moves g) = []"
proof
  show "combine_moves (combine_moves g) = combine_moves g"
    using combine_moves_loop_no_move [where g = "combine_moves g" and acc = "[]"]
      combine_moves_output [of g]
    by (simp add: combine_moves_def)
  show "filter (\<lambda>e. name e = ''move'') (combine_moves g) = []"
    using combine_moves_output [of g] by (simp add: filter_empty_conv)
qed

















text \<open>More generally, a list of moves alone is aggregated to nothing.\<close>

lemma combine_moves_loop_moves_only:
  "\<forall>e \<in> set g. name e = ''move'' \<Longrightarrow> combine_moves_loop ms acc g = acc"
  by (induction g arbitrary: ms) simp_all

section \<open>The header parser\<close>

text \<open>
  The dictionary after the header line \<open>line\<close> has been read into \<open>hs\<close>: the key in lower
  case is bound to the value.
\<close>

definition add_header :: "(string \<rightharpoonup> string) \<Rightarrow> string \<Rightarrow> (string \<rightharpoonup> string)" where
  "add_header hs line =
     (case header_re line of
        None \<Rightarrow> hs
      | Some m \<Rightarrow> (case fst m of k # v # _ \<Rightarrow> hs(lower k \<mapsto> v) | _ \<Rightarrow> hs))"

lemma header_re_groups:
  assumes "header_re l = Some m"
  shows "\<exists>k v n. m = ([k, v], n)"
  using assms unfolding header_re_def Let_def
  by (auto simp del: dropWhile_eq_Nil_conv takeWhile_eq_Nil_iff split: list.splits if_splits)

text \<open>A bracketed key and a quoted value, after any number of spaces, match the pattern.\<close>

lemma header_re_bracketed:
  assumes "k \<noteq> []" and "CHR '' '' \<notin> set k" and "v \<noteq> []" and "dquote \<notin> set v"
  shows "header_re (replicate n CHR '' '' @ ''['' @ k @ '' '' @ [dquote] @ v @ [dquote] @ '']'' @ rest)
    = Some ([k, v], n + length k + length v + 5)"
proof -
  let ?sp = "replicate n CHR '' ''"
  let ?t5 = "[dquote] @ '']'' @ rest"
  let ?t3 = "'' '' @ [dquote] @ v @ ?t5"
  let ?l = "?sp @ ''['' @ k @ ?t3"
  have sp: "takeWhile (\<lambda>c. c = CHR '' '') ?l = ?sp"
    by (subst takeWhile_append2) auto
  have s1: "dropWhile (\<lambda>c. c = CHR '' '') ?l = ''['' @ k @ ?t3"
    by (subst dropWhile_append2) auto
  have k: "takeWhile (\<lambda>c. c \<noteq> CHR '' '') (k @ ?t3) = k"
    using assms(2) by (subst takeWhile_append2) auto
  have s3: "dropWhile (\<lambda>c. c \<noteq> CHR '' '') (k @ ?t3) = ?t3"
    using assms(2) by (subst dropWhile_append2) auto
  have v: "takeWhile (\<lambda>c. c \<noteq> dquote) (v @ ?t5) = v"
    using assms(4) by (subst takeWhile_append2) auto
  have s5: "dropWhile (\<lambda>c. c \<noteq> dquote) (v @ ?t5) = ?t5"
    using assms(4) by (subst dropWhile_append2) auto
  have "header_re ?l = Some ([k, v], n + length k + length v + 5)"
    unfolding header_re_def Let_def sp s1
    using assms(1,3) k s3 v s5 by simp
  then show ?thesis by simp
qed

lemma parse_headers_loop_header:
  assumes "strip l \<noteq> []" and "header_re l \<noteq> None"
  shows "parse_headers_loop hs (l # ls) = parse_headers_loop (add_header hs l) ls"
proof -
  from assms(2) obtain m where m: "header_re l = Some m" by auto
  from header_re_groups [OF m] obtain k v n where "m = ([k, v], n)" by blast
  with assms(1) m show ?thesis
    by (simp add: add_header_def group1_def group2_def)
qed

lemma parse_headers_loop_headers:
  assumes "\<forall>l \<in> set pre. strip l \<noteq> [] \<and> header_re l \<noteq> None"
  shows "parse_headers_loop hs (pre @ ls) = parse_headers_loop (foldl add_header hs pre) ls"
  using assms
proof (induction pre arbitrary: hs)
  case Nil
  show ?case by simp
next
  case (Cons l pre)
  have "parse_headers_loop hs ((l # pre) @ ls) = parse_headers_loop (add_header hs l) (pre @ ls)"
    using Cons.prems by (simp only: append_Cons) (rule parse_headers_loop_header, simp_all)
  also have "\<dots> = parse_headers_loop (foldl add_header (add_header hs l) pre) ls"
    using Cons.prems by (intro Cons.IH) simp
  finally show ?case by simp
qed

lemma join_split: "join [c] (split c s) = s"
proof (induction s)
  case Nil
  show ?case by simp
next
  case (Cons x xs)
  show ?case
  proof (cases "x = c")
    case True
    obtain w ws where "split c xs = w # ws"
      by (cases xs; cases "split c xs") (auto split: if_splits list.splits)
    with Cons True show ?thesis by simp
  next
    case False
    obtain w ws where ws: "split c xs = w # ws"
      by (cases xs; cases "split c xs") (auto split: if_splits list.splits)
    with Cons have "join [c] (w # ws) = xs" by simp
    then have "join [c] ((x # w) # ws) = x # xs"
      by (cases ws) simp_all
    with False ws show ?thesis by simp
  qed
qed

text \<open>
  Claim C7. Let the lines of the input, split at the line feeds, be the lines \<open>pre\<close>, then
  \<open>line\<close>, then the lines \<open>post\<close>, where every line of \<open>pre\<close> is not empty (not blank: the
  code tests \<^verbatim>\<open>line.strip()\<close>) and matches the header pattern. If \<open>line\<close> is empty,
  \<^const>\<open>parse_headers\<close> stops there: it returns the lines \<open>post\<close>, joined again, as the movetext
  and the dictionary in which every line of \<open>pre\<close>, in order, has bound its key in lower
  case to its value. If \<open>line\<close> is not empty and does not match the pattern,
  \<^const>\<open>parse_headers\<close> fails with the ValueError that names this line.
\<close>

theorem parse_headers_first_empty_line:
  assumes "split newline content = pre @ line # post"
    and "\<forall>l \<in> set pre. strip l \<noteq> [] \<and> header_re l \<noteq> None"
  shows "content = join [newline] (pre @ line # post)
    \<and> (strip line = [] \<longrightarrow>
          parse_headers content
            = Inr (foldl add_header Map.empty pre, Some (join [newline] post)))
    \<and> (strip line \<noteq> [] \<and> header_re line = None \<longrightarrow>
          parse_headers content = Inl (ValueError (''Cant parse header: '' @ line)))"
proof -
  have "content = join [newline] (pre @ line # post)"
    using join_split [of newline content] assms(1) by simp
  moreover have "parse_headers content
      = parse_headers_loop (foldl add_header Map.empty pre) (line # post)"
    unfolding parse_headers_def assms(1) using assms(2) by (rule parse_headers_loop_headers)
  ultimately show ?thesis by simp
qed

text \<open>A header line alone.\<close>

definition pgn_one_header :: string where
  "pgn_one_header = ''[White '' @ [dquote] @ ''Smith, John'' @ [dquote] @ '']''"

theorem parse_headers_first_empty_line_witness:
  "split newline (pgn_one_header @ [newline, newline] @ ''1. e4 1-0'')
     = [pgn_one_header] @ [] # [''1. e4 1-0'']
   \<and> strip pgn_one_header \<noteq> [] \<and> header_re pgn_one_header \<noteq> None
   \<and> strip [] = []
   \<and> parse_headers (pgn_one_header @ [newline, newline] @ ''1. e4 1-0'')
       = Inr (foldl add_header Map.empty [pgn_one_header], Some ''1. e4 1-0'')
   \<and> foldl add_header Map.empty [pgn_one_header] ''white'' = Some ''Smith, John''"
proof -
  have a: "split newline (pgn_one_header @ [newline, newline] @ ''1. e4 1-0'')
      = [pgn_one_header] @ [] # [''1. e4 1-0'']"
    by (simp add: pgn_one_header_def newline_def dquote_def)
  have h: "header_re pgn_one_header = Some ([''White'', ''Smith, John''], 21)"
    by (simp add: pgn_one_header_def header_re_def dquote_def)
  have s: "strip pgn_one_header \<noteq> []"
    by (simp add: pgn_one_header_def strip_def lstrip_def rstrip_def isspace_def dquote_def)
  have b: "\<forall>l \<in> set [pgn_one_header]. strip l \<noteq> [] \<and> header_re l \<noteq> None"
    using h s by simp
  have c: "strip [] = []"
    by (simp add: strip_def lstrip_def rstrip_def)
  have d: "foldl add_header Map.empty [pgn_one_header] ''white'' = Some ''Smith, John''"
    by (simp add: add_header_def h lower_def lower_char_def)
  from parse_headers_first_empty_line [OF a b] a h s c d show ?thesis
    by simp
qed

text \<open>
  Claim C10. When no line of the input is empty and every line matches the header
  pattern, \<^const>\<open>parse_headers\<close> reads every line as a header and returns None for the
  movetext, not the empty string; \<^const>\<open>parse_game\<close> then fails on None, and with it the
  construction of the parser.
\<close>

theorem parse_headers_no_empty_line:
  assumes "\<forall>l \<in> set (split newline content). strip l \<noteq> [] \<and> header_re l \<noteq> None"
  shows "parse_headers content = Inr (foldl add_header Map.empty (split newline content), None)
    \<and> PGNParser_init content
        = Inl None_has_no_lstrip"
proof -
  have "parse_headers content
      = parse_headers_loop (foldl add_header Map.empty (split newline content)) []"
    unfolding parse_headers_def
    using parse_headers_loop_headers [OF assms, of Map.empty "[]"] by simp
  then have "parse_headers content
      = Inr (foldl add_header Map.empty (split newline content), None)"
    by simp
  then show ?thesis
    by (simp add: PGNParser_init_def parse_game_def)
qed

theorem parse_headers_no_empty_line_witness:
  "split newline pgn_one_header = [pgn_one_header]
   \<and> strip pgn_one_header \<noteq> [] \<and> header_re pgn_one_header \<noteq> None
   \<and> parse_headers pgn_one_header
       = Inr (foldl add_header Map.empty (split newline pgn_one_header), None)
   \<and> PGNParser_init pgn_one_header
       = Inl None_has_no_lstrip"
proof -
  have s: "split newline pgn_one_header = [pgn_one_header]"
    by (simp add: pgn_one_header_def newline_def dquote_def)
  have h: "header_re pgn_one_header = Some ([''White'', ''Smith, John''], 21)"
    by (simp add: pgn_one_header_def header_re_def dquote_def)
  have t: "strip pgn_one_header \<noteq> []"
    by (simp add: pgn_one_header_def strip_def lstrip_def rstrip_def isspace_def dquote_def)
  have b: "\<forall>l \<in> set (split newline pgn_one_header). strip l \<noteq> [] \<and> header_re l \<noteq> None"
    unfolding s using h t by simp
  from parse_headers_no_empty_line [OF b] s h t show ?thesis
    by simp
qed

section \<open>What the writer appends\<close>

text \<open>
  A line as \<^verbatim>\<open>line % ()\<close> leaves it. Where the formatting raises nothing is written, and
  the line stands for itself.
\<close>

definition formatted :: "pylib \<Rightarrow> string \<Rightarrow> string" where
  "formatted lib line = (case py_format lib line [] of Inl _ \<Rightarrow> line | Inr l \<Rightarrow> l)"

text \<open>
  The text of a line written inline, which ends the line and no more, and of a line
  written as a paragraph, with an empty line before it and after it.
\<close>

definition inline_text :: "pylib \<Rightarrow> string \<Rightarrow> string" where
  "inline_text lib line = join [newline] (wrap lib (formatted lib line)) @ [newline]"

definition paragraph_text :: "pylib \<Rightarrow> string \<Rightarrow> string" where
  "paragraph_text lib line =
     [newline] @ join [newline] (wrap lib (formatted lib line)) @ [newline, newline]"

text \<open>The paragraphs of the lines of a comment: one for each line that is not blank.\<close>

definition comment_paragraphs :: "pylib \<Rightarrow> string list \<Rightarrow> string" where
  "comment_paragraphs lib ls =
     concat (map (paragraph_text lib) (filter (\<lambda>l. l \<noteq> []) (map strip ls)))"

text \<open>The text of a paragraph comment, the diagram of a leading \<^verbatim>\<open>(D)\<close> first.\<close>

definition comment_text :: "pylib \<Rightarrow> string \<Rightarrow> string" where
  "comment_text lib txt =
     (if startswith txt ''(D)'' then
        paragraph_text lib (backslash # ''chessboard'')
        @ comment_paragraphs lib (split newline (strip (drop 3 txt)))
      else comment_paragraphs lib (split newline txt))"

definition append_out :: "PGN2PDF \<Rightarrow> string \<Rightarrow> PGN2PDF" where
  "append_out self s = self\<lparr>tex := (tex self)\<lparr>out := out (tex self) @ s\<rparr>\<rparr>"

lemma py_format_plain: "CHR ''%'' \<notin> set line \<Longrightarrow> py_format lib line [] = Inr line"
  by (induction line) auto

lemma formatted_plain: "CHR ''%'' \<notin> set line \<Longrightarrow> formatted lib line = line"
  by (simp add: formatted_def py_format_plain)

lemma write_inline:
  "CHR ''%'' \<notin> set line
    \<Longrightarrow> write lib line [] False False self = Inr (self\<lparr>out := out self @ inline_text lib line\<rparr>)"
  by (simp add: write_def py_format_plain formatted_plain inline_text_def)

lemma write_paragraph:
  "CHR ''%'' \<notin> set line
    \<Longrightarrow> write lib line [] True False self = Inr (self\<lparr>out := out self @ paragraph_text lib line\<rparr>)"
  by (simp add: write_def py_format_plain formatted_plain paragraph_text_def)

lemma write_inline_Inr:
  "write lib line [] False False self = Inr self'
    \<Longrightarrow> self' = self\<lparr>out := out self @ inline_text lib line\<rparr>"
  by (auto simp: write_def seq_eq_Inr formatted_def inline_text_def)

lemma write_paragraph_Inr:
  "write lib line [] True False self = Inr self'
    \<Longrightarrow> self' = self\<lparr>out := out self @ paragraph_text lib line\<rparr>"
  by (auto simp: write_def seq_eq_Inr formatted_def paragraph_text_def)

lemma with_tex_write_inline_Inr:
  "with_tex (write lib line [] False False) self = Inr self'
    \<Longrightarrow> self' = append_out self (inline_text lib line)"
  by (auto simp: with_tex_def seq_eq_Inr append_out_def dest!: write_inline_Inr)

lemma with_tex_write_paragraph_Inr:
  "with_tex (write lib line [] True False) self = Inr self'
    \<Longrightarrow> self' = append_out self (paragraph_text lib line)"
  by (auto simp: with_tex_def seq_eq_Inr append_out_def dest!: write_paragraph_Inr)

lemma with_tex_write_inline:
  "CHR ''%'' \<notin> set line
    \<Longrightarrow> with_tex (write lib line [] False False) self = Inr (append_out self (inline_text lib line))"
  by (simp add: with_tex_def write_inline append_out_def)

lemma with_tex_write_paragraph:
  "CHR ''%'' \<notin> set line
    \<Longrightarrow> with_tex (write lib line [] True False) self = Inr (append_out self (paragraph_text lib line))"
  by (simp add: with_tex_def write_paragraph append_out_def)

lemma append_out_append: "append_out (append_out self a) b = append_out self (a @ b)"
  by (simp add: append_out_def)

lemma append_out_Nil: "append_out self [] = self"
  by (simp add: append_out_def)

lemma set_strip: "set (strip l) \<subseteq> set l"
proof -
  have "set (strip l) \<subseteq> set (lstrip l)"
    unfolding strip_def rstrip_def using set_dropWhileD [of _ isspace "rev (lstrip l)"] by auto
  also have "\<dots> \<subseteq> set l"
    unfolding lstrip_def using set_dropWhileD [of _ isspace l] by auto
  finally show ?thesis .
qed

lemma set_split: "w \<in> set (split c s) \<Longrightarrow> set w \<subseteq> set s"
proof (induction s arbitrary: w)
  case Nil
  then show ?case by simp
next
  case (Cons x xs)
  show ?case
  proof (cases "x = c")
    case True
    with Cons show ?thesis by auto
  next
    case False
    show ?thesis
    proof (cases "split c xs")
      case Nil
      with Cons.prems False show ?thesis by simp
    next
      case (Cons w' ws)
      with Cons.prems False have "w = x # w' \<or> w \<in> set ws" by simp
      then show ?thesis
      proof
        assume "w = x # w'"
        moreover have "set w' \<subseteq> set xs"
          using Cons.IH [of w'] Cons by simp
        ultimately show ?thesis by auto
      next
        assume "w \<in> set ws"
        then have "set w \<subseteq> set xs"
          using Cons.IH [of w] Cons by simp
        then show ?thesis by auto
      qed
    qed
  qed
qed

lemma write_comment_lines_plain:
  assumes "\<forall>l \<in> set ls. CHR ''%'' \<notin> set l"
  shows "write_comment_lines lib self ls = Inr (append_out self (comment_paragraphs lib ls))"
  using assms
proof (induction ls arbitrary: self)
  case Nil
  show ?case by (simp add: comment_paragraphs_def append_out_Nil)
next
  case (Cons l ls)
  have ih: "\<And>s. write_comment_lines lib s ls = Inr (append_out s (comment_paragraphs lib ls))"
    using Cons.prems by (intro Cons.IH) simp
  show ?case
  proof (cases "strip l = []")
    case True
    then show ?thesis
      by (simp add: ih comment_paragraphs_def)
  next
    case False
    have "CHR ''%'' \<notin> set (strip l)"
      using Cons.prems set_strip [of l] by auto
    then have "with_tex (write lib (strip l) [] True False) self
        = Inr (append_out self (paragraph_text lib (strip l)))"
      by (rule with_tex_write_paragraph)
    with False show ?thesis
      by (simp add: ih append_out_append comment_paragraphs_def)
  qed
qed

lemma write_comment_lines_Inr:
  "write_comment_lines lib self ls = Inr self'
    \<Longrightarrow> self' = append_out self (comment_paragraphs lib ls)"
proof (induction ls arbitrary: self)
  case Nil
  then show ?case by (simp add: comment_paragraphs_def append_out_Nil)
next
  case (Cons l ls)
  show ?case
  proof (cases "strip l = []")
    case True
    with Cons show ?thesis
      by (simp add: comment_paragraphs_def)
  next
    case False
    with Cons.prems obtain s1 where
      s1: "with_tex (write lib (strip l) [] True False) self = Inr s1"
      and r: "write_comment_lines lib s1 ls = Inr self'"
      by (auto simp: seq_eq_Inr)
    from s1 have "s1 = append_out self (paragraph_text lib (strip l))"
      by (rule with_tex_write_paragraph_Inr)
    with Cons.IH [OF r] False show ?thesis
      by (simp add: append_out_append comment_paragraphs_def)
  qed
qed

lemma comment_diagram_plain:
  "comment_diagram lib t self
    = Inr (if startswith t ''(D)''
           then (append_out self (paragraph_text lib (backslash # ''chessboard'')), strip (drop 3 t))
           else (self, t))"
proof -
  have "CHR ''%'' \<notin> set (backslash # ''chessboard'')"
    by (simp add: backslash_def)
  then have "with_tex (make_diagram lib) self
      = Inr (append_out self (paragraph_text lib (backslash # ''chessboard'')))"
    unfolding make_diagram_def by (rule with_tex_write_paragraph)
  then show ?thesis
    by (simp add: comment_diagram_def)
qed

section \<open>Comments\<close>

text \<open>
  The text that \<^const>\<open>end_variation\<close> writes when it leaves \<open>stack\<close> on the writer: the
  resume command for the variation on top of it, and an empty line after the last one.
\<close>

definition resume_text :: "pylib \<Rightarrow> string list \<Rightarrow> string" where
  "resume_text lib stack =
     join [newline]
       (wrap lib
          (backslash # ''resumechessgame[id='' @ (if stack = [] then ''main'' else last stack)
           @ '']''))
     @ [newline] @ (if stack = [] then [newline] else [])"

lemma comment_body_plain_then:
  assumes "CHR ''%'' \<notin> set t"
  shows "seq (comment_diagram lib t self) (\<lambda>(self, t).
           seq (write_comment_lines lib self (split newline t)) k)
         = k (append_out self (comment_text lib t))"
proof (cases "startswith t ''(D)''")
  case True
  have "set (strip (drop 3 t)) \<subseteq> set t"
    using set_strip [of "drop 3 t"] set_drop_subset [of 3 t] by blast
  with assms have "\<forall>l \<in> set (split newline (strip (drop 3 t))). CHR ''%'' \<notin> set l"
    using set_split by blast
  then show ?thesis
    using True
    by (simp add: comment_diagram_plain write_comment_lines_plain comment_text_def
        append_out_append)
next
  case False
  from assms have "\<forall>l \<in> set (split newline t). CHR ''%'' \<notin> set l"
    using set_split by blast
  then show ?thesis
    using False by (simp add: comment_diagram_plain write_comment_lines_plain comment_text_def)
qed

lemma inline_text_close: "inline_text lib '')'' = '')\<newline>''"
  by (simp add: inline_text_def formatted_def wrap_def rstrip_def isspace_def newline_def)

lemma inline_text_empty: "inline_text lib [] = ''\<newline>''"
  by (simp add: inline_text_def formatted_def wrap_def rstrip_def newline_def)

lemma comment_lookahead_other:
  assumes "game_index self < length (game (pgn self))"
    and "name (game (pgn self) ! game_index self) \<noteq> ''end-variation''"
  shows "comment_lookahead lib self = Inr (self, False)"
  using assms by (simp add: comment_lookahead_def current_elt_def)

lemma comment_lookahead_end_variation:
  assumes "game_index self < length (game (pgn self))"
    and "name (game (pgn self) ! game_index self) = ''end-variation''"
  shows "comment_lookahead lib self
    = Inr (advance_game_index (append_out self '')\<newline>''), True)"
proof -
  have "with_tex (write lib '')'' [] False False) self = Inr (append_out self '')\<newline>'')"
    using with_tex_write_inline [of "'')''" lib self] by (simp add: inline_text_close)
  with assms show ?thesis
    by (simp add: comment_lookahead_def current_elt_def)
qed

lemma py_format_resume:
  "py_format lib (backslash # ''resumechessgame[id=%s]'') [a]
    = Inr (backslash # ''resumechessgame[id='' @ a @ '']'')"
  by (simp add: backslash_def)

lemma write_resume:
  "write lib (backslash # ''resumechessgame[id=%s]'') [cur_var (t\<lparr>variation_stack := st\<rparr>)]
     False (length (variation_stack (t\<lparr>variation_stack := st\<rparr>)) = 0)
     (t\<lparr>variation_stack := st\<rparr>)
   = Inr (t\<lparr>variation_stack := st, out := out t @ resume_text lib st\<rparr>)"
  unfolding write_def py_format_resume
  by (cases "st = []") (simp_all add: resume_text_def cur_var_def)

lemma end_variation_open:
  assumes "variation_stack t \<noteq> []"
  shows "end_variation lib t
    = Inr (t\<lparr>variation_stack := butlast (variation_stack t),
             out := out t @ resume_text lib (butlast (variation_stack t))\<rparr>)"
proof -
  have "end_variation lib t
      = write lib (backslash # ''resumechessgame[id=%s]'')
          [cur_var (t\<lparr>variation_stack := butlast (variation_stack t)\<rparr>)]
          False (length (variation_stack (t\<lparr>variation_stack := butlast (variation_stack t)\<rparr>)) = 0)
          (t\<lparr>variation_stack := butlast (variation_stack t)\<rparr>)"
    unfolding end_variation_def Let_def using assms by (simp only: if_False)
  then show ?thesis
    by (simp only: write_resume)
qed

lemma comment_end_variation_open:
  assumes "variation_stack (tex self) \<noteq> []"
  shows "comment_end_variation lib True self
    = Inr (self\<lparr>tex := (tex self)\<lparr>variation_stack := butlast (variation_stack (tex self)),
            out := out (tex self) @ resume_text lib (butlast (variation_stack (tex self)))
                   @ ''\<newline>''\<rparr>\<rparr>)"
proof -
  let ?t = "(tex self)\<lparr>variation_stack := butlast (variation_stack (tex self)),
             out := out (tex self) @ resume_text lib (butlast (variation_stack (tex self)))\<rparr>"
  have "with_tex (end_variation lib) self = Inr (self\<lparr>tex := ?t\<rparr>)"
    using assms by (simp add: with_tex_def end_variation_open)
  moreover have "with_tex (write lib [] [] False False) (self\<lparr>tex := ?t\<rparr>)
      = Inr (append_out (self\<lparr>tex := ?t\<rparr>) ''\<newline>'')"
    using with_tex_write_inline [of "[]" lib "self\<lparr>tex := ?t\<rparr>"] by (simp add: inline_text_empty)
  ultimately show ?thesis
    by (simp add: comment_end_variation_def append_out_def)
qed

lemma comment_end_variation_closed:
  assumes "variation_stack (tex self) = []"
  shows "comment_end_variation lib True self = Inl (IndexError ''pop from empty list'')"
  using assms by (simp add: comment_end_variation_def with_tex_def end_variation_def)

lemma parse_comment_paragraph:
  assumes "t \<noteq> []" and "\<not> islower (hd t)" and "CHR ''%'' \<notin> set t"
  shows "parse_comment lib t self
    = seq (comment_lookahead lib self) (\<lambda>(self, end_var).
        comment_end_variation lib end_var (append_out self (comment_text lib t)))"
proof -
  from assms(1) obtain c cs where t: "t = c # cs" by (cases t) auto
  with assms(2) have "parse_comment lib t self
    = seq (comment_lookahead lib self) (\<lambda>(self, end_var).
        seq (comment_diagram lib t self) (\<lambda>(self, t).
        seq (write_comment_lines lib self (split newline t)) (\<lambda>self.
          comment_end_variation lib end_var self)))"
    by (simp add: parse_comment_def)
  also have "\<dots> = seq (comment_lookahead lib self) (\<lambda>(self, end_var).
        comment_end_variation lib end_var (append_out self (comment_text lib t)))"
    by (simp add: comment_body_plain_then [OF assms(3)])
  finally show ?thesis .
qed



lemma parse_comment_closing_paragraph:
  assumes "t \<noteq> []" and "\<not> islower (hd t)" and "CHR ''%'' \<notin> set t"
    and "game_index self < length (game (pgn self))"
    and "name (game (pgn self) ! game_index self) = ''end-variation''"
    and "variation_stack (tex self) \<noteq> []"
  shows "parse_comment lib t self
    = Inr (self\<lparr>game_index := game_index self + 1,
             tex := (tex self)\<lparr>variation_stack := butlast (variation_stack (tex self)),
               out := out (tex self) @ '')\<newline>'' @ comment_text lib t
                      @ resume_text lib (butlast (variation_stack (tex self)))
                      @ ''\<newline>''\<rparr>\<rparr>)"
proof -
  let ?s = "append_out (advance_game_index (append_out self '')\<newline>'')) (comment_text lib t)"
  have "parse_comment lib t self = comment_end_variation lib True ?s"
    using parse_comment_paragraph [OF assms(1-3)] comment_lookahead_end_variation [OF assms(4,5)]
    by simp
  moreover have "variation_stack (tex ?s) \<noteq> []"
    using assms(6) by (simp add: append_out_def advance_game_index_def)
  ultimately show ?thesis
    by (simp add: comment_end_variation_open) (simp add: append_out_def advance_game_index_def)
qed

lemma parse_comment_closing_unopened:
  assumes "t \<noteq> []" and "\<not> islower (hd t)" and "CHR ''%'' \<notin> set t"
    and "game_index self < length (game (pgn self))"
    and "name (game (pgn self) ! game_index self) = ''end-variation''"
    and "variation_stack (tex self) = []"
  shows "parse_comment lib t self = Inl (IndexError ''pop from empty list'')"
proof -
  let ?s = "append_out (advance_game_index (append_out self '')\<newline>'')) (comment_text lib t)"
  have "parse_comment lib t self = comment_end_variation lib True ?s"
    using parse_comment_paragraph [OF assms(1-3)] comment_lookahead_end_variation [OF assms(4,5)]
    by simp
  moreover have "variation_stack (tex ?s) = []"
    using assms(6) by (simp add: append_out_def advance_game_index_def)
  ultimately show ?thesis
    by (simp add: comment_end_variation_closed)
qed

text \<open>
  What a call of \<^const>\<open>parse_comment\<close> that returns has done, whatever the text: the
  formatting of a line can only raise or succeed, and a call in which it raises does not
  return.
\<close>

definition closed_after_comment :: "pylib \<Rightarrow> string \<Rightarrow> PGN2PDF \<Rightarrow> PGN2PDF" where
  "closed_after_comment lib txt self =
     self\<lparr>game_index := game_index self + 1,
          tex := (tex self)\<lparr>variation_stack := butlast (variation_stack (tex self)),
            out := out (tex self) @ '')\<newline>'' @ comment_text lib txt
                   @ resume_text lib (butlast (variation_stack (tex self)))
                   @ ''\<newline>''\<rparr>\<rparr>"

lemma comment_body_Inr:
  assumes "seq (comment_diagram lib t self) (\<lambda>(self, t).
             seq (write_comment_lines lib self (split newline t)) k) = Inr self'"
  shows "k (append_out self (comment_text lib t)) = Inr self'"
proof -
  let ?d = "paragraph_text lib (backslash # ''chessboard'')"
  show ?thesis
  proof (cases "startswith t ''(D)''")
    case True
    with assms obtain s3 where
      "write_comment_lines lib (append_out self ?d) (split newline (strip (drop 3 t))) = Inr s3"
      and k: "k s3 = Inr self'"
      by (auto simp: comment_diagram_plain seq_eq_Inr)
    then have "s3 = append_out self (comment_text lib t)"
      using True by (auto simp: comment_text_def append_out_append dest!: write_comment_lines_Inr)
    with k show ?thesis by simp
  next
    case False
    with assms obtain s3 where
      "write_comment_lines lib self (split newline t) = Inr s3"
      and k: "k s3 = Inr self'"
      by (auto simp: comment_diagram_plain seq_eq_Inr)
    then have "s3 = append_out self (comment_text lib t)"
      using False by (auto simp: comment_text_def dest!: write_comment_lines_Inr)
    with k show ?thesis by simp
  qed
qed

lemma parse_comment_inline_Inr:
  assumes "parse_comment lib t self = Inr self'" and "t \<noteq> []" and "islower (hd t)"
  shows "self' = append_out self (inline_text lib t)"
proof -
  from assms(2) obtain c cs where "t = c # cs" by (cases t) auto
  with assms(1,3) have "with_tex (write lib t [] False False) self = Inr self'"
    by (simp add: parse_comment_def)
  then show ?thesis
    by (rule with_tex_write_inline_Inr)
qed

lemma parse_comment_paragraph_Inr:
  assumes "parse_comment lib t self = Inr self'" and "t \<noteq> []" and "\<not> islower (hd t)"
  shows "game_index self < length (game (pgn self))
    \<and> (name (game (pgn self) ! game_index self) \<noteq> ''end-variation''
         \<longrightarrow> self' = append_out self (comment_text lib t))
    \<and> (name (game (pgn self) ! game_index self) = ''end-variation''
         \<longrightarrow> variation_stack (tex self) \<noteq> [] \<and> self' = closed_after_comment lib t self)"
proof -
  from assms(2) obtain c cs where "t = c # cs" by (cases t) auto
  with assms(1,3) have run: "seq (comment_lookahead lib self) (\<lambda>(self, end_var).
        seq (comment_diagram lib t self) (\<lambda>(self, t).
        seq (write_comment_lines lib self (split newline t)) (\<lambda>self.
          comment_end_variation lib end_var self))) = Inr self'"
    by (simp add: parse_comment_def)
  have inside: "game_index self < length (game (pgn self))"
  proof (rule ccontr)
    assume "\<not> game_index self < length (game (pgn self))"
    then have "comment_lookahead lib self = Inl (IndexError ''list index out of range'')"
      by (simp add: comment_lookahead_def current_elt_def)
    with run show False by simp
  qed
  show ?thesis
  proof (cases "name (game (pgn self) ! game_index self) = ''end-variation''")
    case False
    from run have "seq (comment_diagram lib t self) (\<lambda>(self, t).
        seq (write_comment_lines lib self (split newline t)) (\<lambda>self.
          comment_end_variation lib False self)) = Inr self'"
      by (simp add: comment_lookahead_other [OF inside False])
    then have "comment_end_variation lib False (append_out self (comment_text lib t)) = Inr self'"
      by (rule comment_body_Inr)
    with inside False show ?thesis
      by (simp add: comment_end_variation_def)
  next
    case True
    let ?s1 = "advance_game_index (append_out self '')\<newline>'')"
    let ?s3 = "append_out ?s1 (comment_text lib t)"
    from run have "seq (comment_diagram lib t ?s1) (\<lambda>(self, t).
        seq (write_comment_lines lib self (split newline t)) (\<lambda>self.
          comment_end_variation lib True self)) = Inr self'"
      by (simp add: comment_lookahead_end_variation [OF inside True])
    then have fin: "comment_end_variation lib True ?s3 = Inr self'"
      by (rule comment_body_Inr)
    have stack: "variation_stack (tex ?s3) = variation_stack (tex self)"
      by (simp add: append_out_def advance_game_index_def)
    have opened: "variation_stack (tex self) \<noteq> []"
    proof
      assume "variation_stack (tex self) = []"
      with stack have "variation_stack (tex ?s3) = []" by simp
      then have "comment_end_variation lib True ?s3 = Inl (IndexError ''pop from empty list'')"
        by (rule comment_end_variation_closed)
      with fin show False by simp
    qed
    with stack have "variation_stack (tex ?s3) \<noteq> []" by simp
    from comment_end_variation_open [OF this] fin
    have "self' = closed_after_comment lib t self"
      by (simp add: closed_after_comment_def append_out_def advance_game_index_def)
    with inside True opened show ?thesis by simp
  qed
qed

subsection \<open>Examples\<close>

definition variation_example :: "PGNElement list" where
  "variation_example =
     [\<lparr>name = ''moves'', text = ''e4''\<rparr>,
      \<lparr>name = ''start-variation'', text = []\<rparr>,
      \<lparr>name = ''moves'', text = ''d4''\<rparr>,
      \<lparr>name = ''comment'', text = ''Interesting idea.''\<rparr>,
      \<lparr>name = ''end-variation'', text = []\<rparr>]"

text \<open>
  The generator at the start of a game without headers, and the generator inside the
  first variation of such a game, with nothing written yet and the cursor at \<open>i\<close>.
\<close>

definition at_start :: "PGNElement list \<Rightarrow> PGN2PDF" where
  "at_start g = \<lparr>pgn = \<lparr>headers = Map.empty, game = g\<rparr>, tex = TEXWriter_init, game_index = 0\<rparr>"

definition in_variation :: "PGNElement list \<Rightarrow> nat \<Rightarrow> PGN2PDF" where
  "in_variation g i =
     \<lparr>pgn = \<lparr>headers = Map.empty, game = g\<rparr>,
      tex = \<lparr>out = [], variation_counter = 1, variation_stack = [''var0'']\<rparr>,
      game_index = i\<rparr>"

lemmas text_defs = formatted_def inline_text_def paragraph_text_def comment_paragraphs_def
  comment_text_def append_out_def resume_text_def closed_after_comment_def

subsection \<open>A paragraph comment at the end of a variation\<close>

text \<open>
  Claim C1. Let the text of a comment not begin with a lower-case letter, and let the
  element under the cursor, the one that follows the comment, be \<^verbatim>\<open>end-variation\<close>.
  Whenever \<^const>\<open>parse_comment\<close> returns, it has written the closing parenthesis first,
  then the paragraphs of the comment, and only then popped the stack of variations and
  written the resume command and the empty line; the cursor is one element further, past
  the \<^verbatim>\<open>end-variation\<close>. It does return when the text is not empty, has no per cent sign
  (the text is used as a format string) and a variation is open. For the sequence
  e4, start-variation, d4, comment "Interesting idea.", end-variation the parenthesis is
  in the output before the paragraph of the comment.
\<close>

theorem comment_before_end_variation:
  "((txt = [] \<or> \<not> islower (hd txt))
      \<and> game_index self < length (game (pgn self))
      \<and> name (game (pgn self) ! game_index self) = ''end-variation''
    \<longrightarrow> (parse_comment lib txt self = Inr self' \<longrightarrow> self' = closed_after_comment lib txt self)
       \<and> (txt \<noteq> [] \<and> CHR ''%'' \<notin> set txt \<and> variation_stack (tex self) \<noteq> [] \<longrightarrow>
            parse_comment lib txt self = Inr (closed_after_comment lib txt self)))
   \<and> out (tex (closed_after_comment lib txt self))
       = out (tex self) @ '')\<newline>'' @ comment_text lib txt
         @ resume_text lib (butlast (variation_stack (tex self))) @ ''\<newline>''
   \<and> game_index (closed_after_comment lib txt self) = game_index self + 1
   \<and> variation_stack (tex (closed_after_comment lib txt self))
       = butlast (variation_stack (tex self))
   \<and> write_game lib (at_start variation_example)
       = Inr \<lparr>pgn = \<lparr>headers = Map.empty, game = variation_example\<rparr>,
              tex = \<lparr>out =
                       backslash # ''mainline { e4 }\<newline>''
                       @ ''(\<newline>''
                       @ backslash # ''newchessgame[newvar=main, id=var0]\<newline>''
                       @ backslash # ''mainline { d4 }\<newline>''
                       @ '')\<newline>''
                       @ ''\<newline>Interesting idea.\<newline>\<newline>''
                       @ backslash # ''resumechessgame[id=main]\<newline>\<newline>''
                       @ ''\<newline>'',
                     variation_counter = 1, variation_stack = []\<rparr>,
              game_index = 5\<rparr>"
proof (intro conjI impI)
  assume a: "(txt = [] \<or> \<not> islower (hd txt))
      \<and> game_index self < length (game (pgn self))
      \<and> name (game (pgn self) ! game_index self) = ''end-variation''"
  {
    assume r: "parse_comment lib txt self = Inr self'"
    then have "txt \<noteq> []"
      by (auto simp: parse_comment_def)
    with a r show "self' = closed_after_comment lib txt self"
      using parse_comment_paragraph_Inr [of lib "txt" self self'] by simp
  }
  {
    assume "txt \<noteq> [] \<and> CHR ''%'' \<notin> set txt \<and> variation_stack (tex self) \<noteq> []"
    with a show "parse_comment lib txt self = Inr (closed_after_comment lib txt self)"
      unfolding closed_after_comment_def by (intro parse_comment_closing_paragraph) simp_all
  }
next
  show "out (tex (closed_after_comment lib txt self))
       = out (tex self) @ '')\<newline>'' @ comment_text lib txt
         @ resume_text lib (butlast (variation_stack (tex self))) @ ''\<newline>''"
    by (simp add: closed_after_comment_def)
next
  show "game_index (closed_after_comment lib txt self) = game_index self + 1"
    by (simp add: closed_after_comment_def)
next
  show "variation_stack (tex (closed_after_comment lib txt self))
       = butlast (variation_stack (tex self))"
    by (simp add: closed_after_comment_def)
next
  show "write_game lib (at_start variation_example)
       = Inr \<lparr>pgn = \<lparr>headers = Map.empty, game = variation_example\<rparr>,
              tex = \<lparr>out =
                       backslash # ''mainline { e4 }\<newline>''
                       @ ''(\<newline>''
                       @ backslash # ''newchessgame[newvar=main, id=var0]\<newline>''
                       @ backslash # ''mainline { d4 }\<newline>''
                       @ '')\<newline>''
                       @ ''\<newline>Interesting idea.\<newline>\<newline>''
                       @ backslash # ''resumechessgame[id=main]\<newline>\<newline>''
                       @ ''\<newline>'',
                     variation_counter = 1, variation_stack = []\<rparr>,
              game_index = 5\<rparr>"
    by (simp add: at_start_def variation_example_def string_defs writer_defs generator_defs
        py_format.simps str_nat.simps Let_def)
qed

theorem comment_before_end_variation_witness:
  "\<forall>lib. \<not> islower (hd ''Interesting idea.'')
     \<and> game_index (in_variation variation_example 4)
         < length (game (pgn (in_variation variation_example 4)))
     \<and> name (game (pgn (in_variation variation_example 4))
               ! game_index (in_variation variation_example 4)) = ''end-variation''
     \<and> ''Interesting idea.'' \<noteq> [] \<and> CHR ''%'' \<notin> set ''Interesting idea.''
     \<and> variation_stack (tex (in_variation variation_example 4)) \<noteq> []
     \<and> parse_comment lib ''Interesting idea.'' (in_variation variation_example 4)
         = Inr \<lparr>pgn = \<lparr>headers = Map.empty, game = variation_example\<rparr>,
                tex = \<lparr>out =
                         '')\<newline>''
                         @ ''\<newline>Interesting idea.\<newline>\<newline>''
                         @ backslash # ''resumechessgame[id=main]\<newline>\<newline>''
                         @ ''\<newline>'',
                       variation_counter = 1, variation_stack = []\<rparr>,
                game_index = 5\<rparr>"
proof
  fix lib
  have a: "\<not> islower (hd ''Interesting idea.'')
     \<and> game_index (in_variation variation_example 4)
         < length (game (pgn (in_variation variation_example 4)))
     \<and> name (game (pgn (in_variation variation_example 4))
               ! game_index (in_variation variation_example 4)) = ''end-variation''
     \<and> ''Interesting idea.'' \<noteq> [] \<and> CHR ''%'' \<notin> set ''Interesting idea.''
     \<and> variation_stack (tex (in_variation variation_example 4)) \<noteq> []"
    by (simp add: in_variation_def variation_example_def islower_def)
  have b: "closed_after_comment lib ''Interesting idea.'' (in_variation variation_example 4)
      = \<lparr>pgn = \<lparr>headers = Map.empty, game = variation_example\<rparr>,
         tex = \<lparr>out =
                  '')\<newline>''
                  @ ''\<newline>Interesting idea.\<newline>\<newline>''
                  @ backslash # ''resumechessgame[id=main]\<newline>\<newline>''
                  @ ''\<newline>'',
                variation_counter = 1, variation_stack = []\<rparr>,
         game_index = 5\<rparr>"
    by (simp add: in_variation_def string_defs text_defs wrap_def py_format.simps)
  from a have "parse_comment lib ''Interesting idea.'' (in_variation variation_example 4)
      = Inr (closed_after_comment lib ''Interesting idea.'' (in_variation variation_example 4))"
    using comment_before_end_variation
      [of "''Interesting idea.''" "in_variation variation_example 4" lib]
    by blast
  with a b show "\<not> islower (hd ''Interesting idea.'')
     \<and> game_index (in_variation variation_example 4)
         < length (game (pgn (in_variation variation_example 4)))
     \<and> name (game (pgn (in_variation variation_example 4))
               ! game_index (in_variation variation_example 4)) = ''end-variation''
     \<and> ''Interesting idea.'' \<noteq> [] \<and> CHR ''%'' \<notin> set ''Interesting idea.''
     \<and> variation_stack (tex (in_variation variation_example 4)) \<noteq> []
     \<and> parse_comment lib ''Interesting idea.'' (in_variation variation_example 4)
         = Inr \<lparr>pgn = \<lparr>headers = Map.empty, game = variation_example\<rparr>,
                tex = \<lparr>out =
                         '')\<newline>''
                         @ ''\<newline>Interesting idea.\<newline>\<newline>''
                         @ backslash # ''resumechessgame[id=main]\<newline>\<newline>''
                         @ ''\<newline>'',
                       variation_counter = 1, variation_stack = []\<rparr>,
                game_index = 5\<rparr>"
    by simp
qed

subsection \<open>Inline comments and paragraph comments\<close>



section \<open>Variation depth\<close>

definition count_name :: "string \<Rightarrow> PGNElement list \<Rightarrow> nat" where
  "count_name n elts = length (filter (\<lambda>e. name e = n) elts)"

definition depth :: "PGN2PDF \<Rightarrow> nat" where
  "depth self = length (variation_stack (tex self))"

text \<open>The elements that the cursor passes between two states of the generator.\<close>

definition consumed :: "PGN2PDF \<Rightarrow> PGN2PDF \<Rightarrow> PGNElement list" where
  "consumed self self' =
     take (game_index self' - game_index self) (drop (game_index self) (game (pgn self)))"

text \<open>An instance of the library parameters, for closed statements.\<close>

definition lib_example :: pylib where
  "lib_example =
     \<lparr>wrap_long = (\<lambda>line. [line]),
      format_directive = (\<lambda>fmt args. Inl (ValueError ''unsupported format character''))\<rparr>"

definition unclosed_example :: "PGNElement list" where
  "unclosed_example =
     [\<lparr>name = ''moves'', text = ''e4''\<rparr>,
      \<lparr>name = ''start-variation'', text = []\<rparr>,
      \<lparr>name = ''moves'', text = ''d4''\<rparr>,
      \<lparr>name = ''result'', text = ''1-0''\<rparr>,
      \<lparr>name = ''end'', text = []\<rparr>]"

definition unopened_example :: "PGNElement list" where
  "unopened_example =
     [\<lparr>name = ''end-variation'', text = []\<rparr>, \<lparr>name = ''end'', text = []\<rparr>]"

text \<open>A step that leaves the game, the cursor and the stack of variations as they are.\<close>

definition unchanged :: "PGN2PDF \<Rightarrow> PGN2PDF \<Rightarrow> bool" where
  "unchanged self self' =
     (pgn self' = pgn self \<and> game_index self' = game_index self
      \<and> variation_stack (tex self') = variation_stack (tex self))"

lemma write_stack:
  "write lib l a p t w = Inr w' \<Longrightarrow> variation_stack w' = variation_stack w"
  by (auto simp: write_def seq_eq_Inr)

lemma with_tex_write_unchanged:
  "with_tex (write lib l a p t) self = Inr self' \<Longrightarrow> unchanged self self'"
  by (auto simp: with_tex_def seq_eq_Inr unchanged_def dest: write_stack)

lemma with_tex_make_diagram_unchanged:
  "with_tex (make_diagram lib) self = Inr self' \<Longrightarrow> unchanged self self'"
  unfolding make_diagram_def by (rule with_tex_write_unchanged)

lemma with_tex_write_moves_unchanged:
  "with_tex (write_moves lib m) self = Inr self' \<Longrightarrow> unchanged self self'"
  unfolding write_moves_def by (rule with_tex_write_unchanged)

lemma unchanged_trans: "unchanged a b \<Longrightarrow> unchanged b c \<Longrightarrow> unchanged a c"
  by (simp add: unchanged_def)

lemma start_variation_stack:
  "start_variation lib w = Inr w' \<Longrightarrow> length (variation_stack w') = length (variation_stack w) + 1"
  by (auto simp: start_variation_def Let_def seq_eq_Inr dest!: write_stack)

lemma end_variation_stack:
  "end_variation lib w = Inr w' \<Longrightarrow> length (variation_stack w') + 1 = length (variation_stack w)"
  by (auto simp: end_variation_def Let_def dest!: write_stack split: if_splits)

lemma with_tex_start_variation:
  "with_tex (start_variation lib) self = Inr self'
    \<Longrightarrow> pgn self' = pgn self \<and> game_index self' = game_index self \<and> depth self' = depth self + 1"
  by (auto simp: with_tex_def seq_eq_Inr depth_def dest: start_variation_stack)

lemma with_tex_end_variation:
  "with_tex (end_variation lib) self = Inr self'
    \<Longrightarrow> pgn self' = pgn self \<and> game_index self' = game_index self \<and> depth self' + 1 = depth self"
  by (auto simp: with_tex_def seq_eq_Inr depth_def dest: end_variation_stack)

text \<open>A comment moves the cursor and pops the stack together, or does neither.\<close>

lemma parse_comment_cases:
  assumes "parse_comment lib t self = Inr self'"
  shows "pgn self' = pgn self
    \<and> ((game_index self' = game_index self \<and> depth self' = depth self)
       \<or> (game_index self < length (game (pgn self))
          \<and> name (game (pgn self) ! game_index self) = ''end-variation''
          \<and> game_index self' = game_index self + 1 \<and> depth self' + 1 = depth self))"
proof -
  from assms have ne: "t \<noteq> []"
    by (auto simp: parse_comment_def)
  show ?thesis
  proof (cases "islower (hd t)")
    case True
    with assms ne have "self' = append_out self (inline_text lib t)"
      by (intro parse_comment_inline_Inr)
    then show ?thesis
      by (simp add: append_out_def depth_def)
  next
    case False
    with assms ne have p: "game_index self < length (game (pgn self))
      \<and> (name (game (pgn self) ! game_index self) \<noteq> ''end-variation''
           \<longrightarrow> self' = append_out self (comment_text lib t))
      \<and> (name (game (pgn self) ! game_index self) = ''end-variation''
           \<longrightarrow> variation_stack (tex self) \<noteq> [] \<and> self' = closed_after_comment lib t self)"
      by (intro parse_comment_paragraph_Inr)
    show ?thesis
    proof (cases "name (game (pgn self) ! game_index self) = ''end-variation''")
      case True
      with p show ?thesis
        by (simp add: closed_after_comment_def depth_def)
    next
      case False
      with p show ?thesis
        by (simp add: append_out_def depth_def)
    qed
  qed
qed

lemma take_one_drop: "i < length g \<Longrightarrow> take (Suc 0) (drop i g) = [g ! i]"
  by (simp add: take_Suc_conv_app_nth)

lemma take_two_drop: "Suc i < length g \<Longrightarrow> take 2 (drop i g) = [g ! i, g ! Suc i]"
  by (simp add: numeral_2_eq_2 take_Suc_conv_app_nth)

text \<open>One turn of the loop of \<^const>\<open>write_game\<close>.\<close>

lemma write_elt_balance:
  assumes "game_index self < length (game (pgn self))"
    and "write_elt lib (game (pgn self) ! game_index self) (advance_game_index self)
          = Inr (continue, self')"
  shows "pgn self' = pgn self \<and> game_index self < game_index self'
    \<and> game_index self' \<le> length (game (pgn self))
    \<and> depth self' + count_name ''end-variation'' (consumed self self')
        = depth self + count_name ''start-variation'' (consumed self self')"
proof -
  let ?g = "game (pgn self)" and ?i = "game_index self"
  let ?elt = "?g ! ?i" and ?s = "advance_game_index self"
  have s: "pgn ?s = pgn self" "game_index ?s = Suc ?i" "depth ?s = depth self"
    by (simp_all add: advance_game_index_def depth_def)
  have one: "\<And>s'. pgn s' = pgn self \<Longrightarrow> game_index s' = Suc ?i \<Longrightarrow> consumed self s' = [?elt]"
    using assms(1) by (simp add: consumed_def take_one_drop)
  consider (moves) "name ?elt = ''moves''" | (comment) "name ?elt = ''comment''"
    | (evaluation) "name ?elt = ''evaluation''" | (result) "name ?elt = ''result''"
    | (start) "name ?elt = ''start-variation''" | (ending) "name ?elt = ''end-variation''"
    | (finish) "name ?elt = ''end''"
    | (other) "name ?elt \<notin> {''moves'', ''comment'', ''evaluation'', ''result'',
        ''start-variation'', ''end-variation'', ''end''}"
    by blast
  then show ?thesis
  proof cases
    case moves
    with assms(2) have "with_tex (write_moves lib (text ?elt)) ?s = Inr self'"
      by (auto simp: write_elt_def seq_eq_Inr)
    then have u: "unchanged ?s self'"
      by (rule with_tex_write_moves_unchanged)
    with s have "consumed self self' = [?elt]"
      by (intro one) (simp_all add: unchanged_def)
    with u s moves assms(1) show ?thesis
      by (simp add: unchanged_def depth_def count_name_def)
  next
    case evaluation
    with assms(2) have "with_tex (write lib (text ?elt) [] False False) ?s = Inr self'"
      by (auto simp: write_elt_def seq_eq_Inr)
    then have u: "unchanged ?s self'"
      by (rule with_tex_write_unchanged)
    with s have "consumed self self' = [?elt]"
      by (intro one) (simp_all add: unchanged_def)
    with u s evaluation assms(1) show ?thesis
      by (simp add: unchanged_def depth_def count_name_def)
  next
    case result
    with assms(2) have "with_tex (write lib (text ?elt) [] True False) ?s = Inr self'"
      by (auto simp: write_elt_def seq_eq_Inr)
    then have u: "unchanged ?s self'"
      by (rule with_tex_write_unchanged)
    with s have "consumed self self' = [?elt]"
      by (intro one) (simp_all add: unchanged_def)
    with u s result assms(1) show ?thesis
      by (simp add: unchanged_def depth_def count_name_def)
  next
    case start
    with assms(2) obtain s1 where "with_tex (write lib ''('' [] False False) ?s = Inr s1"
      and "with_tex (start_variation lib) s1 = Inr self'"
      by (auto simp: write_elt_def seq_eq_Inr)
    then have u: "pgn self' = pgn ?s \<and> game_index self' = game_index ?s
        \<and> depth self' = depth ?s + 1"
      by (auto simp: unchanged_def depth_def
          dest!: with_tex_write_unchanged with_tex_start_variation [unfolded depth_def])
    with s have "consumed self self' = [?elt]"
      by (intro one) simp_all
    with u s start assms(1) show ?thesis
      by (simp add: count_name_def)
  next
    case ending
    with assms(2) obtain s1 where "with_tex (write lib '')'' [] False False) ?s = Inr s1"
      and "with_tex (end_variation lib) s1 = Inr self'"
      by (auto simp: write_elt_def seq_eq_Inr)
    then have u: "pgn self' = pgn ?s \<and> game_index self' = game_index ?s
        \<and> depth self' + 1 = depth ?s"
      by (auto simp: unchanged_def depth_def
          dest!: with_tex_write_unchanged with_tex_end_variation [unfolded depth_def])
    with s have "consumed self self' = [?elt]"
      by (intro one) simp_all
    with u s ending assms(1) show ?thesis
      by (simp add: count_name_def)
  next
    case finish
    with assms(2) have "self' = ?s"
      by (simp add: write_elt_def)
    with s finish assms(1) one [of ?s] show ?thesis
      by (simp add: count_name_def)
  next
    case other
    with assms(2) show ?thesis
      by (simp add: write_elt_def)
  next
    case comment
    with assms(2) have "parse_comment lib (text ?elt) ?s = Inr self'"
      by (auto simp: write_elt_def seq_eq_Inr)
    from parse_comment_cases [OF this] have p: "pgn self' = pgn self"
      and c: "(game_index self' = Suc ?i \<and> depth self' = depth self)
       \<or> (Suc ?i < length ?g \<and> name (?g ! Suc ?i) = ''end-variation''
          \<and> game_index self' = Suc (Suc ?i) \<and> depth self' + 1 = depth self)"
      by (simp_all add: s)
    from c show ?thesis
    proof
      assume a: "game_index self' = Suc ?i \<and> depth self' = depth self"
      with p have "consumed self self' = [?elt]"
        by (intro one) simp_all
      with a p comment assms(1) show ?thesis
        by (simp add: count_name_def)
    next
      assume a: "Suc ?i < length ?g \<and> name (?g ! Suc ?i) = ''end-variation''
          \<and> game_index self' = Suc (Suc ?i) \<and> depth self' + 1 = depth self"
      then have "consumed self self' = [?elt, ?g ! Suc ?i]"
        using take_two_drop [of ?i ?g] by (simp add: consumed_def)
      with a p comment show ?thesis
        by (simp add: count_name_def)
    qed
  qed
qed

lemma consumed_append:
  assumes "pgn s1 = pgn self" and "game_index self \<le> game_index s1"
    and "game_index s1 \<le> game_index self'"
  shows "consumed self self' = consumed self s1 @ consumed s1 self'"
proof -
  let ?i = "game_index self" and ?j = "game_index s1" and ?k = "game_index self'"
  have "?k - ?i = (?j - ?i) + (?k - ?j)"
    using assms(2,3) by simp
  then have "take (?k - ?i) (drop ?i (game (pgn self)))
      = take (?j - ?i) (drop ?i (game (pgn self)))
        @ take (?k - ?j) (drop (?j - ?i) (drop ?i (game (pgn self))))"
    by (simp only: take_add)
  moreover have "drop (?j - ?i) (drop ?i (game (pgn self))) = drop ?j (game (pgn self))"
    using assms(2) by simp
  ultimately show ?thesis
    by (simp add: consumed_def assms(1))
qed

lemma count_name_append: "count_name n (a @ b) = count_name n a + count_name n b"
  by (simp add: count_name_def)

lemma write_game_stop:
  "\<not> game_index self < length (game (pgn self)) \<Longrightarrow> write_game lib self = Inr self"
  by (subst write_game.simps) simp

lemma write_game_turn:
  "game_index self < length (game (pgn self))
    \<Longrightarrow> write_game lib self
      = seq (write_elt lib (game (pgn self) ! game_index self) (advance_game_index self))
          (\<lambda>(continue, self). if continue then write_game lib self else Inr self)"
  by (subst write_game.simps) (simp add: Let_def)

lemma write_game_balance:
  "write_game lib self = Inr self'
    \<Longrightarrow> pgn self' = pgn self \<and> game_index self \<le> game_index self'
      \<and> depth self' + count_name ''end-variation'' (consumed self self')
          = depth self + count_name ''start-variation'' (consumed self self')"
proof (induction lib self rule: write_game.induct)
  case (1 lib self)
  show ?case
  proof (cases "game_index self < length (game (pgn self))")
    case False
    with "1.prems" have "self' = self"
      by (simp add: write_game_stop)
    then show ?thesis
      by (simp add: consumed_def count_name_def)
  next
    case True
    let ?elt = "game (pgn self) ! game_index self"
    from "1.prems" True obtain p where p: "write_elt lib ?elt (advance_game_index self) = Inr p"
      and r: "(case p of (continue, self) \<Rightarrow>
                 if continue then write_game lib self else Inr self) = Inr self'"
      by (auto simp: write_game_turn elim: seqE)
    obtain continue s1 where p_eq: "p = (continue, s1)" by (cases p)
    have step: "pgn s1 = pgn self \<and> game_index self < game_index s1
        \<and> game_index s1 \<le> length (game (pgn self))
        \<and> depth s1 + count_name ''end-variation'' (consumed self s1)
            = depth self + count_name ''start-variation'' (consumed self s1)"
      using True p unfolding p_eq by (rule write_elt_balance)
    show ?thesis
    proof (cases continue)
      case False
      with r p_eq have "self' = s1" by simp
      with step show ?thesis by simp
    next
      case True
      with r p_eq have "write_game lib s1 = Inr self'" by simp
      with "1.IH" [OF \<open>game_index self < length (game (pgn self))\<close> refl p p_eq [symmetric] True]
      have ih: "pgn self' = pgn s1 \<and> game_index s1 \<le> game_index self'
          \<and> depth self' + count_name ''end-variation'' (consumed s1 self')
              = depth s1 + count_name ''start-variation'' (consumed s1 self')"
        by simp
      have "consumed self self' = consumed self s1 @ consumed s1 self'"
        using step ih by (intro consumed_append) simp_all
      with step ih show ?thesis
        by (simp add: count_name_append)
    qed
  qed
qed

lemma write_game_unopened:
  assumes "game_index self < length (game (pgn self))"
    and "name (game (pgn self) ! game_index self) = ''end-variation''"
    and "variation_stack (tex self) = []"
  shows "write_game lib self = Inl (IndexError ''pop from empty list'')"
proof -
  have "with_tex (write lib '')'' [] False False) (advance_game_index self)
      = Inr (append_out (advance_game_index self) '')\<newline>'')"
    using with_tex_write_inline [of "'')''" lib "advance_game_index self"]
    by (simp add: inline_text_close)
  moreover have "with_tex (end_variation lib) (append_out (advance_game_index self) '')\<newline>'')
      = Inl (IndexError ''pop from empty list'')"
    using assms(3) by (simp add: with_tex_def end_variation_def append_out_def advance_game_index_def)
  ultimately have "write_elt lib (game (pgn self) ! game_index self) (advance_game_index self)
      = Inl (IndexError ''pop from empty list'')"
    using assms(2) by (simp add: write_elt_def)
  with assms(1) show ?thesis
    by (simp add: write_game_turn)
qed

text \<open>
  Claim C3, as amended. The generator has no check that the variations of a game are
  closed: \<^const>\<open>write_game\<close> fails for an \<^verbatim>\<open>end-variation\<close> that it meets with an empty
  stack, with the IndexError of the \<^verbatim>\<open>pop\<close>, and when it returns, the elements it has
  consumed hold as many \<^verbatim>\<open>end-variation\<close> elements more than \<^verbatim>\<open>start-variation\<close> elements
  as the stack has lost in depth. From an empty stack it cannot have consumed more
  \<^verbatim>\<open>end-variation\<close> than \<^verbatim>\<open>start-variation\<close> elements; it may have consumed fewer, and the
  variations left open stay on the stack.
\<close>

theorem variation_balance:
  "(game_index self < length (game (pgn self))
      \<and> name (game (pgn self) ! game_index self) = ''end-variation''
      \<and> variation_stack (tex self) = []
    \<longrightarrow> write_game lib self = Inl (IndexError ''pop from empty list''))
   \<and> (write_game lib self = Inr self'
    \<longrightarrow> depth self' + count_name ''end-variation'' (consumed self self')
        = depth self + count_name ''start-variation'' (consumed self self'))"
  using write_game_unopened [of self lib] write_game_balance [of lib self self'] by blast

theorem variation_balance_witness:
  "\<forall>lib. game_index (at_start unopened_example) < length (game (pgn (at_start unopened_example)))
     \<and> name (game (pgn (at_start unopened_example)) ! game_index (at_start unopened_example))
         = ''end-variation''
     \<and> variation_stack (tex (at_start unopened_example)) = []
     \<and> write_game lib (at_start unopened_example) = Inl (IndexError ''pop from empty list'')
     \<and> write_game lib (in_variation variation_example 4)
         = Inr ((in_variation variation_example 4)\<lparr>game_index := 5,
             tex := \<lparr>out = '')\<newline>''
                        @ backslash # ''resumechessgame[id=main]\<newline>\<newline>'',
                      variation_counter = 1, variation_stack = []\<rparr>\<rparr>)
     \<and> depth (in_variation variation_example 4) = 1
     \<and> count_name ''end-variation'' (drop 4 variation_example) = 1
     \<and> count_name ''start-variation'' (drop 4 variation_example) = 0"
proof
  fix lib
  let ?s' = "(in_variation variation_example 4)\<lparr>game_index := 5,
             tex := \<lparr>out = '')\<newline>''
                        @ backslash # ''resumechessgame[id=main]\<newline>\<newline>'',
                      variation_counter = 1, variation_stack = []\<rparr>\<rparr>"
  have a: "game_index (at_start unopened_example) < length (game (pgn (at_start unopened_example)))
     \<and> name (game (pgn (at_start unopened_example)) ! game_index (at_start unopened_example))
         = ''end-variation''
     \<and> variation_stack (tex (at_start unopened_example)) = []"
    by (simp add: at_start_def unopened_example_def TEXWriter_init_def)
  have b: "write_game lib (in_variation variation_example 4) = Inr ?s'"
    by (simp add: in_variation_def variation_example_def string_defs writer_defs
        generator_defs py_format.simps Let_def)
  have c: "depth (in_variation variation_example 4) = 1
     \<and> count_name ''end-variation'' (drop 4 variation_example) = 1
     \<and> count_name ''start-variation'' (drop 4 variation_example) = 0"
    using variation_balance [of "in_variation variation_example 4" lib ?s'] b
    by (simp add: depth_def consumed_def count_name_def in_variation_def variation_example_def)
  show "game_index (at_start unopened_example) < length (game (pgn (at_start unopened_example)))
     \<and> name (game (pgn (at_start unopened_example)) ! game_index (at_start unopened_example))
         = ''end-variation''
     \<and> variation_stack (tex (at_start unopened_example)) = []
     \<and> write_game lib (at_start unopened_example) = Inl (IndexError ''pop from empty list'')
     \<and> write_game lib (in_variation variation_example 4) = Inr ?s'
     \<and> depth (in_variation variation_example 4) = 1
     \<and> count_name ''end-variation'' (drop 4 variation_example) = 1
     \<and> count_name ''start-variation'' (drop 4 variation_example) = 0"
    using variation_balance [of "at_start unopened_example" lib] a b c by simp
qed

text \<open>
  Claim C3 as it is stated fails on a game with a variation that is never closed: it has
  one \<^verbatim>\<open>start-variation\<close> and no \<^verbatim>\<open>end-variation\<close>, and the generator writes it to the end
  without an error.
\<close>

theorem variation_balance_counterexample:
  "count_name ''start-variation'' unclosed_example = 1
   \<and> count_name ''end-variation'' unclosed_example = 0
   \<and> write_game lib_example (at_start unclosed_example)
       = Inr \<lparr>pgn = \<lparr>headers = Map.empty, game = unclosed_example\<rparr>,
              tex = \<lparr>out =
                       backslash # ''mainline { e4 }\<newline>''
                       @ ''(\<newline>''
                       @ backslash # ''newchessgame[newvar=main, id=var0]\<newline>''
                       @ backslash # ''mainline { d4 }\<newline>''
                       @ ''\<newline>1-0\<newline>\<newline>'',
                     variation_counter = 1, variation_stack = [''var0'']\<rparr>,
              game_index = 5\<rparr>"
  by (simp add: count_name_def at_start_def unclosed_example_def string_defs writer_defs
      generator_defs py_format.simps str_nat.simps Let_def)

section \<open>Whole conversions\<close>

text \<open>A header block with the names of the players and the result, and the blank line.\<close>

definition pgn_headers :: string where
  "pgn_headers =
     ''[White '' @ [dquote] @ ''Smith, John'' @ [dquote] @ '']\<newline>''
     @ ''[Black '' @ [dquote] @ ''Doe, Jane'' @ [dquote] @ '']\<newline>''
     @ ''[Result '' @ [dquote] @ ''1-0'' @ [dquote] @ '']\<newline>''
     @ ''\<newline>''"

text \<open>The text that \<^const>\<open>start\<close> writes, and the text that \<^const>\<open>end_writer\<close> writes.\<close>

definition preamble :: string where
  "preamble =
     backslash # ''documentclass[a4paper]{article}\<newline>''
     @ backslash # ''usepackage{xskak}\<newline>''
     @ backslash # ''setlength{'' @ backslash # ''parskip}{1em}\<newline>''
     @ backslash # ''begin{document}\<newline>''
     @ ''\<newline>''
     @ backslash # ''newchessgame[id=main]\<newline>''"

definition closing :: string where
  "closing = ''\<newline>'' @ backslash # ''end{document}\<newline>''"

lemma start_preamble: "start lib self = Inr (self\<lparr>out := out self @ preamble\<rparr>)"
  by (simp add: start_def write_def wrap_def py_format.simps preamble_def string_defs)

lemma end_writer_closing: "end_writer lib self = Inr (self\<lparr>out := out self @ closing\<rparr>)"
  by (simp add: end_writer_def write_def wrap_def py_format.simps closing_def string_defs)

text \<open>
  Claim C8. For the file with the headers White, Black and Result "1-0" and the movetext
  \<^verbatim>\<open>1. e4 e5 2. Nf3 {A solid reply.} 1-0\<close> the parser builds one run of moves, the comment,
  the result and the end element, and the document is, in this order: the preamble, the
  title line, one mainline command with the text \<^verbatim>\<open>1. e4 e5 2. Nf3\<close>, the comment as a
  paragraph, the result as a paragraph, and the closing marker.
\<close>

theorem end_to_end_scenario:
  "PGNParser_init (pgn_headers @ ''1. e4 e5 2. Nf3 {A solid reply.} 1-0'')
     = Inr \<lparr>headers = [''white'' \<mapsto> ''Smith, John'', ''black'' \<mapsto> ''Doe, Jane'',
                         ''result'' \<mapsto> ''1-0''],
            game = [\<lparr>name = ''moves'', text = ''1. e4 e5 2. Nf3''\<rparr>,
                    \<lparr>name = ''comment'', text = ''A solid reply.''\<rparr>,
                    \<lparr>name = ''result'', text = ''1-0''\<rparr>,
                    \<lparr>name = ''end'', text = []\<rparr>]\<rparr>
   \<and> PGN2PDF_init lib (pgn_headers @ ''1. e4 e5 2. Nf3 {A solid reply.} 1-0'')
     = Inr (preamble
            @ backslash # ''section{Smith - Doe}\<newline>''
            @ backslash # ''mainline { 1. e4 e5 2. Nf3 }\<newline>''
            @ ''\<newline>A solid reply.\<newline>\<newline>''
            @ ''\<newline>1-0\<newline>\<newline>''
            @ closing)"
proof
  show p: "PGNParser_init (pgn_headers @ ''1. e4 e5 2. Nf3 {A solid reply.} 1-0'')
     = Inr \<lparr>headers = [''white'' \<mapsto> ''Smith, John'', ''black'' \<mapsto> ''Doe, Jane'',
                         ''result'' \<mapsto> ''1-0''],
            game = [\<lparr>name = ''moves'', text = ''1. e4 e5 2. Nf3''\<rparr>,
                    \<lparr>name = ''comment'', text = ''A solid reply.''\<rparr>,
                    \<lparr>name = ''result'', text = ''1-0''\<rparr>,
                    \<lparr>name = ''end'', text = []\<rparr>]\<rparr>"
    by (simp add: pgn_headers_def string_defs parser_defs Let_def)
  show "PGN2PDF_init lib (pgn_headers @ ''1. e4 e5 2. Nf3 {A solid reply.} 1-0'')
     = Inr (preamble
            @ backslash # ''section{Smith - Doe}\<newline>''
            @ backslash # ''mainline { 1. e4 e5 2. Nf3 }\<newline>''
            @ ''\<newline>A solid reply.\<newline>\<newline>''
            @ ''\<newline>1-0\<newline>\<newline>''
            @ closing)"
    unfolding PGN2PDF_init_def p
    by (simp add: preamble_def closing_def string_defs writer_defs py_format.simps
        with_tex_def make_name_def make_title_def current_elt_def
        advance_game_index_def comment_lookahead_def comment_diagram_def comment_end_variation_def
        parse_comment_def write_elt_def convert_def write_game.simps Let_def)
qed

text \<open>
  Claim C9. The tokenizer makes a comment with the empty text of the input \<^verbatim>\<open>{}\<close>. On
  a comment with the empty text \<^const>\<open>parse_comment\<close> raises the IndexError of \<^verbatim>\<open>text[0]\<close>,
  whatever the state of the generator, and so does the turn of the loop of
  \<^const>\<open>write_game\<close> on such an element: no empty paragraph is written. A file with such a
  comment is not converted.
\<close>

theorem empty_comment_raises:
  "parse_game (Some ''{}'') = Inr [\<lparr>name = ''comment'', text = []\<rparr>]
   \<and> parse_comment lib [] self = Inl (IndexError ''string index out of range'')
   \<and> write_elt lib \<lparr>name = ''comment'', text = []\<rparr> self
       = Inl (IndexError ''string index out of range'')
   \<and> PGN2PDF_init lib (pgn_headers @ ''1. e4 {} 1-0'')
       = Inl (IndexError ''string index out of range'')"
proof (intro conjI)
  show "parse_game (Some ''{}'') = Inr [\<lparr>name = ''comment'', text = []\<rparr>]"
    by (simp add: string_defs parser_defs Let_def)
  show "parse_comment lib [] self = Inl (IndexError ''string index out of range'')"
    by (simp add: parse_comment_def)
  show "write_elt lib \<lparr>name = ''comment'', text = []\<rparr> self
       = Inl (IndexError ''string index out of range'')"
    by (simp add: write_elt_def parse_comment_def)
  have p: "PGNParser_init (pgn_headers @ ''1. e4 {} 1-0'')
     = Inr \<lparr>headers = [''white'' \<mapsto> ''Smith, John'', ''black'' \<mapsto> ''Doe, Jane'',
                         ''result'' \<mapsto> ''1-0''],
            game = [\<lparr>name = ''moves'', text = ''1. e4''\<rparr>,
                    \<lparr>name = ''comment'', text = []\<rparr>,
                    \<lparr>name = ''result'', text = ''1-0''\<rparr>,
                    \<lparr>name = ''end'', text = []\<rparr>]\<rparr>"
    by (simp add: pgn_headers_def string_defs parser_defs Let_def)
  show "PGN2PDF_init lib (pgn_headers @ ''1. e4 {} 1-0'')
       = Inl (IndexError ''string index out of range'')"
    unfolding PGN2PDF_init_def p
    by (simp add: string_defs writer_defs py_format.simps
        with_tex_def make_name_def make_title_def current_elt_def
        advance_game_index_def parse_comment_def write_elt_def convert_def write_game.simps Let_def)
qed


end
